theory Spec2Isabelle
  imports Main
begin

section \<open>A private blockchain: blocks, the ledger and star submission\<close>

text \<open>
  The development embeds \<^verbatim>\<open>Block.ts\<close>, \<^verbatim>\<open>Message.ts\<close> and
  \<^verbatim>\<open>Blockchain.ts\<close>. JavaScript strings are modelled as \<^typ>\<open>string\<close>: one
  \<^typ>\<open>char\<close> per UTF-16 code unit, for code units below 256 (ASCII and Latin-1).
  JavaScript numbers are modelled as \<^typ>\<open>int\<close>; the values that occur (heights,
  Unix times) are integers far below \<open>2 ^ 53\<close>, where the two agree.

  Library functions that are not part of the repository are parameters of the
  functions that call them:
  \<^item> \<open>SHA256\<close>: \<^verbatim>\<open>SHA256(s).toString()\<close> of crypto-js, text to hex digest;
  \<^item> \<open>verify\<close>: \<^verbatim>\<open>bitcoinMessage.verify(message, address, signature)\<close>, a
    boolean as the declaration file of the repository types it;
  \<^item> \<open>toNumber\<close>: the unary \<^verbatim>\<open>+\<close> on a string, \<open>None\<close> standing for NaN (a
    result that is not an integer is outside the model);
  \<^item> \<open>hex2ascii\<close> and \<open>JSON_parse\<close> in \<^verbatim>\<open>getBData\<close>, \<open>None\<close> standing
    for the SyntaxError of \<^verbatim>\<open>JSON.parse\<close>.
  The clock (\<^verbatim>\<open>new Date().getTime()\<close>, in milliseconds) is an argument of every
  function that reads it. The methods are \<^verbatim>\<open>async\<close>. \<open>addBlock\<close>, \<open>validateChain\<close>
  and \<open>submitStar\<close> are a call that runs to its end before the next call is made (the
  caller awaits it); the segments between the awaits of \<^verbatim>\<open>_addBlock\<close>, and two calls
  that overlap, are in the subsection on overlapping calls.
\<close>

subsection \<open>Text: decimal numbers, JSON strings, hexadecimal\<close>

definition dq :: char where
  "dq = CHR 0x22"

definition bs :: char where
  "bs = CHR 0x5C"

definition digit_char :: "nat \<Rightarrow> char" where
  "digit_char d = char_of (48 + d)"

text \<open>\<^verbatim>\<open>Number.prototype.toString\<close> on a non-negative integer.\<close>

fun show_nat :: "nat \<Rightarrow> string" where
  "show_nat n = (if n < 10 then [digit_char n] else show_nat (n div 10) @ [digit_char (n mod 10)])"

declare show_nat.simps [simp del]

definition show_int :: "int \<Rightarrow> string" where
  "show_int i = (if i < 0 then CHR ''-'' # show_nat (nat (- i)) else show_nat (nat i))"

text \<open>Lower-case hexadecimal digits, as \<^verbatim>\<open>Buffer.toString("hex")\<close> and the
  \<^verbatim>\<open>\u00XX\<close> escapes of \<^verbatim>\<open>JSON.stringify\<close> write them.\<close>

definition hex_char :: "nat \<Rightarrow> char" where
  "hex_char d = (if d < 10 then char_of (48 + d) else char_of (87 + d))"

definition hex_byte :: "nat \<Rightarrow> string" where
  "hex_byte b = [hex_char (b div 16), hex_char (b mod 16)]"

text \<open>\<^verbatim>\<open>QuoteJSONString\<close>: the quote, the backslash and the control characters
  are escaped, every other code unit is copied.\<close>

definition quote_char :: "char \<Rightarrow> string" where
  "quote_char c =
     (if c = dq then [bs, dq]
      else if c = bs then [bs, bs]
      else if c = CHR 0x08 then [bs, CHR ''b'']
      else if c = CHR 0x0C then [bs, CHR ''f'']
      else if c = CHR 0x0A then [bs, CHR ''n'']
      else if c = CHR 0x0D then [bs, CHR ''r'']
      else if c = CHR 0x09 then [bs, CHR ''t'']
      else if (of_char c :: nat) < 32 then [bs, CHR ''u'', CHR ''0'', CHR ''0''] @ hex_byte (of_char c)
      else [c])"

definition quote :: "string \<Rightarrow> string" where
  "quote s = dq # concat (map quote_char s) @ [dq]"

subsection \<open>JSON values and \<^verbatim>\<open>JSON.stringify\<close>\<close>

text \<open>
  A payload is a JSON value. An object is the list of its own enumerable properties in
  enumeration order; a property whose value is \<^verbatim>\<open>undefined\<close> is not in the list,
  as \<^verbatim>\<open>JSON.stringify\<close> leaves it out.
\<close>

datatype json =
    JNull
  | JBool bool
  | JNum int
  | JStr string
  | JArr "json list"
  | JObj "(string \<times> json) list"

fun commas :: "string list \<Rightarrow> string" where
  "commas [] = []"
| "commas [x] = x"
| "commas (x # y # ys) = x @ CHR '','' # commas (y # ys)"

fun stringify :: "json \<Rightarrow> string" where
  "stringify JNull = ''null''"
| "stringify (JBool b) = (if b then ''true'' else ''false'')"
| "stringify (JNum n) = show_int n"
| "stringify (JStr s) = quote s"
| "stringify (JArr xs) = CHR ''['' # commas (map stringify xs) @ '']''"
| "stringify (JObj ms) =
     CHR ''{'' # commas (map (\<lambda>(k, v). quote k @ CHR '':'' # stringify v) ms) @ ''}''"

text \<open>\<^verbatim>\<open>Buffer.from(s)\<close> encodes in UTF-8: a code unit below 128 is one byte, one
  from 128 to 255 is two.\<close>

definition utf8_char :: "char \<Rightarrow> nat list" where
  "utf8_char c =
     (let n = (of_char c :: nat) in
      if n < 128 then [n] else [192 + n div 64, 128 + n mod 64])"

definition Buffer_from :: "string \<Rightarrow> nat list" where
  "Buffer_from s = concat (map utf8_char s)"

definition toString_hex :: "nat list \<Rightarrow> string" where
  "toString_hex bytes = concat (map hex_byte bytes)"

subsection \<open>BlockMessage\<close>

text \<open>The \<^verbatim>\<open>time\<close> of a message is a number; \<open>None\<close> is NaN.\<close>

record BlockMessage =
  address :: string
  time :: "int option"

text \<open>The constructor: \<^verbatim>\<open>address || ''\<close> and \<^verbatim>\<open>time || 0\<close>, an argument
  left out being \<open>None\<close>.\<close>

definition new_BlockMessage :: "string option \<Rightarrow> int option \<Rightarrow> BlockMessage" where
  "new_BlockMessage a t =
     \<lparr> address = (case a of None \<Rightarrow> [] | Some x \<Rightarrow> x),
       time = Some (case t of None \<Rightarrow> 0 | Some x \<Rightarrow> x) \<rparr>"

definition toString :: "BlockMessage \<Rightarrow> string" where
  "toString m =
     address m @ CHR '':'' #
     (case BlockMessage.time m of None \<Rightarrow> ''NaN'' | Some t \<Rightarrow> show_int t) @ '':starRegistry''"

text \<open>\<^verbatim>\<open>String.prototype.split\<close> with a one-character separator.\<close>

fun split :: "char \<Rightarrow> string \<Rightarrow> string list" where
  "split sep [] = [[]]"
| "split sep (c # cs) =
     (if c = sep then [] # split sep cs
      else (case split sep cs of
              [] \<Rightarrow> [[c]]
            | x # xs \<Rightarrow> (c # x) # xs))"

text \<open>\<^verbatim>\<open>parse\<close> takes the first two fields; with no second field \<^verbatim>\<open>+undefined\<close>
  is NaN.\<close>

definition parse :: "(string \<Rightarrow> int option) \<Rightarrow> string \<Rightarrow> BlockMessage \<Rightarrow> BlockMessage" where
  "parse toNumber message m =
     (case split CHR '':'' message of
        [] \<Rightarrow> m
      | [a] \<Rightarrow> m\<lparr>address := a, time := None\<rparr>
      | a # t # _ \<Rightarrow> m\<lparr>address := a, time := toNumber t\<rparr>)"

subsection \<open>Block\<close>

record Block =
  hash :: "string option"
  height :: int
  body :: string
  time :: int
  previousBlockHash :: "string option"

text \<open>The constructor.\<close>

definition new_Block :: "json \<Rightarrow> Block" where
  "new_Block data =
     \<lparr> hash = None,
       height = 0,
       body = toString_hex (Buffer_from (stringify data)),
       time = 0,
       previousBlockHash = None \<rparr>"

text \<open>\<^verbatim>\<open>const { hash, ...block } = this\<close>: the own properties but \<^verbatim>\<open>hash\<close>, in
  the order the constructor created them.\<close>

definition block_rest :: "Block \<Rightarrow> json" where
  "block_rest b =
     JObj [(''height'', JNum (height b)),
           (''body'', JStr (body b)),
           (''time'', JNum (time b)),
           (''previousBlockHash'',
              (case previousBlockHash b of None \<Rightarrow> JNull | Some p \<Rightarrow> JStr p))]"

definition generateHash :: "(string \<Rightarrow> string) \<Rightarrow> Block \<Rightarrow> Block" where
  "generateHash SHA256 b = b\<lparr>hash := Some (SHA256 (stringify (block_rest b)))\<rparr>"

text \<open>\<^verbatim>\<open>validate\<close> returns its verdict and the block as it leaves it.\<close>

definition validate :: "(string \<Rightarrow> string) \<Rightarrow> Block \<Rightarrow> bool \<times> Block" where
  "validate SHA256 b =
     (let currentHash = hash b;
          b' = generateHash SHA256 b
      in (currentHash = hash b', b'))"

datatype error =
    Error string
  | SyntaxError
  | InvalidChainError (errors: "string list")

definition getBData ::
  "(string \<Rightarrow> string) \<Rightarrow> (string \<Rightarrow> json option) \<Rightarrow> Block \<Rightarrow> error + json" where
  "getBData hex2ascii JSON_parse b =
     (if height b = 0 then Inr JNull
      else (case JSON_parse (hex2ascii (body b)) of
              None \<Rightarrow> Inl SyntaxError
            | Some v \<Rightarrow> Inr v))"

subsection \<open>The clock and the five-minute window\<close>

text \<open>\<^verbatim>\<open>getTimeInSeconds\<close> drops the last three digits of the millisecond clock.\<close>

definition getTimeInSeconds :: "nat \<Rightarrow> int" where
  "getTimeInSeconds ms = int (ms div 1000)"

text \<open>A comparison with NaN is false.\<close>

definition ValidTime :: "nat \<Rightarrow> int option \<Rightarrow> bool" where
  "ValidTime ms timeInSeconds =
     (case timeInSeconds of
        None \<Rightarrow> False
      | Some t \<Rightarrow> getTimeInSeconds ms - t > 300)"

subsection \<open>Blockchain\<close>

text \<open>
  The fields \<^verbatim>\<open>_chain\<close> and \<^verbatim>\<open>_height\<close>. The array holds references to block
  objects that \<^verbatim>\<open>validate\<close> mutates, so a reference to a block of the chain is its
  index, and \<^verbatim>\<open>find\<close> returns the first index whose block matches.
\<close>

record Blockchain =
  p_chain :: "Block list"
  p_height :: int

fun findIndex :: "('a \<Rightarrow> bool) \<Rightarrow> 'a list \<Rightarrow> nat option" where
  "findIndex P [] = None"
| "findIndex P (x # xs) = (if P x then Some 0 else map_option Suc (findIndex P xs))"

definition getBlockByHash :: "Block list \<Rightarrow> string option \<Rightarrow> nat option" where
  "getBlockByHash chain h = findIndex (\<lambda>block. hash block = h) chain"

definition getBlockByHeight :: "Block list \<Rightarrow> int \<Rightarrow> nat option" where
  "getBlockByHeight chain n = findIndex (\<lambda>block. height block = n) chain"

definition getLatestBlock :: "Blockchain \<Rightarrow> nat option" where
  "getLatestBlock bc = getBlockByHeight (p_chain bc) (p_height bc)"

text \<open>A \<^verbatim>\<open>string | null\<close> in a condition: null and the empty string are falsy.\<close>

definition truthy :: "string option \<Rightarrow> bool" where
  "truthy h = (case h of None \<Rightarrow> False | Some s \<Rightarrow> s \<noteq> [])"

text \<open>A \<^verbatim>\<open>string | null\<close> in a template literal.\<close>

definition template :: "string option \<Rightarrow> string" where
  "template h = (case h of None \<Rightarrow> ''null'' | Some s \<Rightarrow> s)"

text \<open>
  The \<^verbatim>\<open>while\<close> loop of \<^verbatim>\<open>validateChain\<close>, on the chain, the current block and
  the error log. The current block is an index that \<^verbatim>\<open>find\<close> returned, so it is
  within the chain. Nothing bounds the iterations on an arbitrary chain (a block may
  name itself as its predecessor), so not returning is the value \<open>None\<close>.
\<close>

partial_function (option) walk ::
  "(string \<Rightarrow> string) \<Rightarrow> Block list \<Rightarrow> nat option \<Rightarrow> string list
     \<Rightarrow> (Block list \<times> string list) option" where
  "walk SHA256 chain currentBlock errorLog =
     (case currentBlock of
        None \<Rightarrow> Some (chain, errorLog)
      | Some i \<Rightarrow>
          if truthy (previousBlockHash (chain ! i)) then
            walk SHA256
              (chain[i := snd (validate SHA256 (chain ! i))])
              (getBlockByHash (chain[i := snd (validate SHA256 (chain ! i))])
                 (previousBlockHash (chain ! i)))
              (if fst (validate SHA256 (chain ! i)) then errorLog
               else errorLog @
                 [''Block '' @ template (hash (snd (validate SHA256 (chain ! i)))) @ '' is invalid!''])
          else Some (chain, errorLog))"

declare walk.simps [code]

definition validateChain ::
  "(string \<Rightarrow> string) \<Rightarrow> Blockchain \<Rightarrow> ((error + unit) \<times> Blockchain) option" where
  "validateChain SHA256 bc =
     (let currentBlock = getLatestBlock bc;
          errorLog = (if currentBlock = None then [''Latest block not found!''] else [])
      in case walk SHA256 (p_chain bc) currentBlock errorLog of
           None \<Rightarrow> None
         | Some (chain', errorLog') \<Rightarrow>
             Some (if length errorLog' > 0 then Inl (InvalidChainError errorLog') else Inr (),
                   bc\<lparr>p_chain := chain'\<rparr>))"

text \<open>\<^verbatim>\<open>_addBlock\<close>; the block is a new object, not one of the chain. The error of
  \<^verbatim>\<open>validateChain\<close> is thrown after the push, so the ledger it leaves has the block.\<close>

definition addBlock ::
  "(string \<Rightarrow> string) \<Rightarrow> nat \<Rightarrow> Block \<Rightarrow> Blockchain \<Rightarrow> ((error + unit) \<times> Blockchain) option" where
  "addBlock SHA256 ms block bc =
     (let block1 = block\<lparr>height := p_height bc + 1, time := getTimeInSeconds ms\<rparr>;
          latestBlock = getLatestBlock bc;
          block2 = (case latestBlock of
                      None \<Rightarrow> block1
                    | Some i \<Rightarrow>
                        if p_height bc > - 1
                        then block1\<lparr>previousBlockHash := hash (p_chain bc ! i)\<rparr>
                        else block1);
          block3 = generateHash SHA256 block2
      in validateChain SHA256
           (bc\<lparr>p_chain := p_chain bc @ [block3], p_height := p_height bc + 1\<rparr>))"

definition initializeChain ::
  "(string \<Rightarrow> string) \<Rightarrow> nat \<Rightarrow> Blockchain \<Rightarrow> ((error + unit) \<times> Blockchain) option" where
  "initializeChain SHA256 ms bc =
     (if p_height bc = - 1
      then addBlock SHA256 ms (new_Block (JObj [(''data'', JStr ''Genesis Block'')])) bc
      else Some (Inr (), bc))"

text \<open>The constructor, once \<^verbatim>\<open>initializeChain\<close> has run to its end.\<close>

definition new_Blockchain ::
  "(string \<Rightarrow> string) \<Rightarrow> nat \<Rightarrow> ((error + unit) \<times> Blockchain) option" where
  "new_Blockchain SHA256 ms = initializeChain SHA256 ms \<lparr>p_chain = [], p_height = - 1\<rparr>"

definition requestMessageOwnershipVerification :: "nat \<Rightarrow> string \<Rightarrow> string" where
  "requestMessageOwnershipVerification ms a =
     toString (new_BlockMessage (Some a) (Some (getTimeInSeconds ms)))"

text \<open>
  \<^verbatim>\<open>submitStar\<close> reads the clock twice: \<open>ms\<close> in \<^verbatim>\<open>ValidTime\<close> and \<open>ms'\<close> in
  \<^verbatim>\<open>_addBlock\<close>. It returns the block it appended, which is the last of the chain.
\<close>

definition submitStar ::
  "(string \<Rightarrow> string) \<Rightarrow> (string \<Rightarrow> string \<Rightarrow> string \<Rightarrow> bool) \<Rightarrow> (string \<Rightarrow> int option)
     \<Rightarrow> nat \<Rightarrow> nat \<Rightarrow> string \<Rightarrow> string \<Rightarrow> string \<Rightarrow> json \<Rightarrow> Blockchain
     \<Rightarrow> ((error + Block) \<times> Blockchain) option" where
  "submitStar SHA256 verify toNumber ms ms' a message signature star bc =
     (let messageTime = BlockMessage.time (parse toNumber message (new_BlockMessage None None))
      in if \<not> ValidTime ms messageTime then Some (Inl (Error ''Message is too old!''), bc)
         else if \<not> verify message a signature then Some (Inl (Error ''Message is invalid!''), bc)
         else (case addBlock SHA256 ms' (new_Block (JObj [(''owner'', JStr a), (''star'', star)])) bc of
                 None \<Rightarrow> None
               | Some (Inl e, bc') \<Rightarrow> Some (Inl e, bc')
               | Some (Inr _, bc') \<Rightarrow> Some (Inr (last (p_chain bc')), bc')))"

subsection \<open>Overlapping calls\<close>

text \<open>
  \<^verbatim>\<open>_addBlock\<close> suspends at three awaits, and every promise it awaits is already
  settled, so each continuation is queued as a job at once and the jobs run in the order
  they were queued. The four segments of a call:
  \<^item> \<open>addBlock_call\<close>, run by the caller: the height and the time are assigned and
    \<^verbatim>\<open>getLatestBlock()\<close> runs its \<^verbatim>\<open>find\<close>;
  \<^item> \<open>addBlock_link\<close>: \<^verbatim>\<open>previousBlockHash\<close> is assigned when a latest block was found
    and \<^verbatim>\<open>_height > -1\<close>, and \<^verbatim>\<open>generateHash()\<close> runs;
  \<^item> \<open>addBlock_push\<close>: the push, \<^verbatim>\<open>_height++\<close>, and the start of \<^verbatim>\<open>validateChain\<close>
    up to the \<^verbatim>\<open>find\<close> of its \<^verbatim>\<open>getLatestBlock()\<close>;
  \<^item> \<open>validateChain_rest\<close>: the rest of \<^verbatim>\<open>validateChain\<close>. The loop awaits too; it is
    one segment here, which is exact when the loop does not iterate.
\<close>

definition addBlock_call :: "nat \<Rightarrow> Block \<Rightarrow> Blockchain \<Rightarrow> Block \<times> nat option" where
  "addBlock_call ms block bc =
     (block\<lparr>height := p_height bc + 1, time := getTimeInSeconds ms\<rparr>, getLatestBlock bc)"

definition addBlock_link ::
  "(string \<Rightarrow> string) \<Rightarrow> Block \<Rightarrow> nat option \<Rightarrow> Blockchain \<Rightarrow> Block" where
  "addBlock_link SHA256 block latestBlock bc =
     generateHash SHA256
       (case latestBlock of
          None \<Rightarrow> block
        | Some i \<Rightarrow>
            if p_height bc > - 1
            then block\<lparr>previousBlockHash := hash (p_chain bc ! i)\<rparr>
            else block)"

definition addBlock_push :: "Block \<Rightarrow> Blockchain \<Rightarrow> Blockchain \<times> nat option" where
  "addBlock_push block bc =
     (let bc' = bc\<lparr>p_chain := p_chain bc @ [block], p_height := p_height bc + 1\<rparr>
      in (bc', getLatestBlock bc'))"

definition validateChain_rest ::
  "(string \<Rightarrow> string) \<Rightarrow> nat option \<Rightarrow> Blockchain \<Rightarrow> ((error + unit) \<times> Blockchain) option" where
  "validateChain_rest SHA256 currentBlock bc =
     (let errorLog = (if currentBlock = None then [''Latest block not found!''] else [])
      in case walk SHA256 (p_chain bc) currentBlock errorLog of
           None \<Rightarrow> None
         | Some (chain', errorLog') \<Rightarrow>
             Some (if length errorLog' > 0 then Inl (InvalidChainError errorLog') else Inr (),
                   bc\<lparr>p_chain := chain'\<rparr>))"

text \<open>
  \<^verbatim>\<open>const bc = new Blockchain(); bc._addBlock(block)\<close> in one tick. The constructor does
  not await \<^verbatim>\<open>initializeChain()\<close>, so it returns when the \<^verbatim>\<open>_addBlock\<close> of the genesis
  block has run its first segment, and the second call runs its first segment on the
  empty ledger too. The jobs then alternate: link, link, push, push, rest, rest. Neither
  loop iterates (the first current block has no previous hash, the second is null). The
  result is what the two promises settle with and the ledger they leave.
\<close>

definition new_Blockchain_and_addBlock ::
  "(string \<Rightarrow> string) \<Rightarrow> nat \<Rightarrow> nat \<Rightarrow> Block
     \<Rightarrow> ((error + unit) \<times> (error + unit) \<times> Blockchain) option" where
  "new_Blockchain_and_addBlock SHA256 ms ms' block =
     (let bc = \<lparr>p_chain = [], p_height = - 1\<rparr>;
          (g, latest_g) = addBlock_call ms (new_Block (JObj [(''data'', JStr ''Genesis Block'')])) bc;
          (b, latest_b) = addBlock_call ms' block bc;
          g' = addBlock_link SHA256 g latest_g bc;
          b' = addBlock_link SHA256 b latest_b bc;
          (bc1, current_g) = addBlock_push g' bc;
          (bc2, current_b) = addBlock_push b' bc1
      in case validateChain_rest SHA256 current_g bc2 of
           None \<Rightarrow> None
         | Some (r, bc3) \<Rightarrow>
             (case validateChain_rest SHA256 current_b bc3 of
                None \<Rightarrow> None
              | Some (r', bc4) \<Rightarrow> Some (r, r', bc4)))"

text \<open>The block that \<^verbatim>\<open>_addBlock\<close> pushes at height \<open>n\<close> when it found no latest block.\<close>

definition unlinked :: "(string \<Rightarrow> string) \<Rightarrow> int \<Rightarrow> nat \<Rightarrow> json \<Rightarrow> Block" where
  "unlinked SHA256 n ms data =
     generateHash SHA256 ((new_Block data)\<lparr>height := n, time := getTimeInSeconds ms\<rparr>)"

subsection \<open>Ledgers built by calls run one after another\<close>

text \<open>A block is intact when \<^verbatim>\<open>validate\<close> answers true on it.\<close>

definition intact :: "(string \<Rightarrow> string) \<Rightarrow> Block \<Rightarrow> bool" where
  "intact SHA256 b = fst (validate SHA256 b)"

text \<open>
  The ledgers that the constructor and any sequence of \<^verbatim>\<open>_addBlock\<close> and
  \<^verbatim>\<open>submitStar\<close> calls produce when each call, the initialization of the constructor
  included, has run to its end before the next is made, whatever each call returns or
  throws. Calls that overlap build other ledgers, which are not among these.
\<close>

inductive reachable :: "(string \<Rightarrow> string) \<Rightarrow> Blockchain \<Rightarrow> bool" for SHA256 where
  constructed: "new_Blockchain SHA256 ms = Some (r, bc) \<Longrightarrow> reachable SHA256 bc"
| added: "reachable SHA256 bc \<Longrightarrow> addBlock SHA256 ms block bc = Some (r, bc')
     \<Longrightarrow> reachable SHA256 bc'"
| submitted: "reachable SHA256 bc
     \<Longrightarrow> submitStar SHA256 verify toNumber ms ms' a message signature star bc = Some (r', bc')
     \<Longrightarrow> reachable SHA256 bc'"

text \<open>The invariant of those ledgers.\<close>

definition chain_ok :: "(string \<Rightarrow> string) \<Rightarrow> Blockchain \<Rightarrow> bool" where
  "chain_ok SHA256 bc =
     (p_chain bc \<noteq> [] \<and>
      p_height bc = int (length (p_chain bc)) - 1 \<and>
      previousBlockHash (p_chain bc ! 0) = None \<and>
      (\<forall>i<length (p_chain bc).
         height (p_chain bc ! i) = int i \<and> intact SHA256 (p_chain bc ! i)) \<and>
      (\<forall>i<length (p_chain bc).
         0 < i \<longrightarrow> previousBlockHash (p_chain bc ! i) = hash (p_chain bc ! (i - 1))))"

text \<open>Mutating a block of the chain in place: \<^verbatim>\<open>chain[k].body = x\<close>.\<close>

definition set_body :: "nat \<Rightarrow> string \<Rightarrow> Blockchain \<Rightarrow> Blockchain" where
  "set_body k x bc =
     (if k < length (p_chain bc)
      then bc\<lparr>p_chain := (p_chain bc)[k := (p_chain bc ! k)\<lparr>body := x\<rparr>]\<rparr>
      else bc)"

text \<open>The block that the constructor pushes, and the block that \<^verbatim>\<open>_addBlock\<close> pushes
  on a ledger that has a latest block.\<close>

definition genesis :: "(string \<Rightarrow> string) \<Rightarrow> nat \<Rightarrow> Block" where
  "genesis SHA256 ms =
     generateHash SHA256
       ((new_Block (JObj [(''data'', JStr ''Genesis Block'')]))
          \<lparr>height := 0, time := getTimeInSeconds ms\<rparr>)"

definition appended :: "(string \<Rightarrow> string) \<Rightarrow> nat \<Rightarrow> Block \<Rightarrow> Blockchain \<Rightarrow> Block" where
  "appended SHA256 ms block bc =
     generateHash SHA256
       (block\<lparr>height := p_height bc + 1, time := getTimeInSeconds ms,
              previousBlockHash := hash (last (p_chain bc))\<rparr>)"

subsection \<open>Stand-ins for the library functions\<close>

text \<open>
  The npm package \<^verbatim>\<open>hex2ascii\<close> on a text of hexadecimal digits, which every body
  written by the constructor is: each pair of digits is one character,
  \<^verbatim>\<open>String.fromCharCode(parseInt(pair, 16))\<close>, and the code 0 is left out.
\<close>

definition hex_value :: "char \<Rightarrow> nat option" where
  "hex_value c =
     (let n = (of_char c :: nat) in
      if 48 \<le> n \<and> n \<le> 57 then Some (n - 48)
      else if 97 \<le> n \<and> n \<le> 102 then Some (n - 87)
      else if 65 \<le> n \<and> n \<le> 70 then Some (n - 55)
      else None)"

fun hex2ascii_pairs :: "string \<Rightarrow> string" where
  "hex2ascii_pairs (a # b # rest) =
     (case (hex_value a, hex_value b) of
        (Some x, Some y) \<Rightarrow>
          if 16 * x + y = 0 then hex2ascii_pairs rest
          else char_of (16 * x + y) # hex2ascii_pairs rest
      | _ \<Rightarrow> hex2ascii_pairs rest)"
| "hex2ascii_pairs [a] = (case hex_value a of Some x \<Rightarrow> if x = 0 then [] else [char_of x] | None \<Rightarrow> [])"
| "hex2ascii_pairs [] = []"

text \<open>
  The unary \<^verbatim>\<open>+\<close> on a non-empty string of decimal digits, which is how
  \<^verbatim>\<open>BlockMessage.toString\<close> writes the time. JavaScript converts strings of other forms
  too; the runs below have none, and this stand-in answers NaN on them.
\<close>

definition decimal_toNumber :: "string \<Rightarrow> int option" where
  "decimal_toNumber s =
     (if s \<noteq> [] \<and> list_all (\<lambda>c. 48 \<le> (of_char c :: nat) \<and> (of_char c :: nat) \<le> 57) s
      then Some (foldl (\<lambda>a c. 10 * a + (of_char c - 48)) 0 s)
      else None)"

text \<open>A small digest that stands for SHA-256 in the concrete runs below.\<close>

definition toy_digest :: "string \<Rightarrow> string" where
  "toy_digest s = show_nat (foldl (\<lambda>a c. (31 * a + of_char c) mod 1000003) 7 s)"

text \<open>
  A ledger of three blocks: the constructor at clock 1000, then two appends at clocks
  2000 and 3000, with the toy digest.
\<close>

definition block0 :: Block where
  "block0 =
     \<lparr> hash = Some ''707308'', height = 0,
       body = ''7b2264617461223a2247656e6573697320426c6f636b227d'',
       time = 1, previousBlockHash = None \<rparr>"

definition block1 :: Block where
  "block1 =
     \<lparr> hash = Some ''676994'', height = 1,
       body = ''7b226f776e6572223a2261222c2273746172223a317d'',
       time = 2, previousBlockHash = Some ''707308'' \<rparr>"

definition block2 :: Block where
  "block2 =
     \<lparr> hash = Some ''283696'', height = 2,
       body = ''7b226f776e6572223a2262222c2273746172223a327d'',
       time = 3, previousBlockHash = Some ''676994'' \<rparr>"

definition ledger1 :: Blockchain where
  "ledger1 = \<lparr>p_chain = [block0], p_height = 0\<rparr>"

definition ledger2 :: Blockchain where
  "ledger2 = \<lparr>p_chain = [block0, block1], p_height = 1\<rparr>"

definition ledger3 :: Blockchain where
  "ledger3 = \<lparr>p_chain = [block0, block1, block2], p_height = 2\<rparr>"

text \<open>The ledger after \<^verbatim>\<open>chain[1].body = "00"\<close> and one call of \<^verbatim>\<open>validateChain\<close>,
  which has recomputed the hash of block 1.\<close>

definition ledger3_healed :: Blockchain where
  "ledger3_healed =
     \<lparr>p_chain = [block0, block1\<lparr>body := ''00'', hash := Some ''620535''\<rparr>, block2],
      p_height = 2\<rparr>"

text \<open>A star with an accented letter, and the same payload with the letter's two
  UTF-8 bytes read as two characters.\<close>

definition accented :: json where
  "accented = JObj [(''owner'', JStr ''a''), (''star'', JObj [(''story'', JStr [CHR 0xE9])])]"

definition garbled :: json where
  "garbled = JObj [(''owner'', JStr ''a''), (''star'', JObj [(''story'', JStr [CHR 0xC3, CHR 0xA9])])]"

subsection \<open>The error log of a walk\<close>

text \<open>
  The entry that \<^verbatim>\<open>validateChain\<close> logs for a block it finds invalid; the entries
  for the blocks at the positions \<open>i\<close> down to 1, in that order; and the chain after
  \<^verbatim>\<open>validate\<close> has run on each of those blocks.
\<close>

definition fault :: "(string \<Rightarrow> string) \<Rightarrow> Block \<Rightarrow> string" where
  "fault SHA256 b = ''Block '' @ SHA256 (stringify (block_rest b)) @ '' is invalid!''"

fun faults :: "(string \<Rightarrow> string) \<Rightarrow> nat \<Rightarrow> Block list \<Rightarrow> string list" where
  "faults SHA256 0 chain = []"
| "faults SHA256 (Suc i) chain =
     (if intact SHA256 (chain ! Suc i) then [] else [fault SHA256 (chain ! Suc i)])
       @ faults SHA256 i chain"

fun rehashed :: "(string \<Rightarrow> string) \<Rightarrow> nat \<Rightarrow> Block list \<Rightarrow> Block list" where
  "rehashed SHA256 0 chain = chain"
| "rehashed SHA256 (Suc i) chain =
     rehashed SHA256 i (chain[Suc i := generateHash SHA256 (chain ! Suc i)])"

subsection \<open>Reading a text back\<close>

text \<open>
  The inverses of the decimal and the JSON string writers: \<open>unquote_chars\<close> reads the
  characters of a JSON string after its opening quote, up to the closing quote, and
  returns them with the rest of the text.
\<close>

definition unescape :: "char \<Rightarrow> char" where
  "unescape e =
     (if e = CHR ''b'' then CHR 0x08
      else if e = CHR ''f'' then CHR 0x0C
      else if e = CHR ''n'' then CHR 0x0A
      else if e = CHR ''r'' then CHR 0x0D
      else if e = CHR ''t'' then CHR 0x09
      else e)"

fun unquote_chars :: "string \<Rightarrow> (string \<times> string) option" where
  "unquote_chars [] = None"
| "unquote_chars (c # cs) =
     (if c = dq then Some ([], cs)
      else if c = bs then
        (case cs of
           [] \<Rightarrow> None
         | e # r \<Rightarrow>
             if e = CHR ''u'' then
               (case r of
                  a # b # x # y # r' \<Rightarrow>
                    (case (hex_value x, hex_value y) of
                       (Some h, Some l) \<Rightarrow>
                         map_option (apfst ((#) (char_of (16 * h + l)))) (unquote_chars r')
                     | _ \<Rightarrow> None)
                | _ \<Rightarrow> None)
             else map_option (apfst ((#) (unescape e))) (unquote_chars r))
      else map_option (apfst ((#) c)) (unquote_chars cs))"

definition read_nat :: "string \<Rightarrow> nat" where
  "read_nat s = foldl (\<lambda>a c. 10 * a + (of_char c - 48)) 0 s"

section \<open>Properties\<close>

subsection \<open>The walk of \<^verbatim>\<open>validateChain\<close>\<close>

lemma walk_None: "walk SHA256 chain None errorLog = Some (chain, errorLog)"
  by (simp add: walk.simps)

lemma walk_stop:
  "\<not> truthy (previousBlockHash (chain ! i)) \<Longrightarrow>
     walk SHA256 chain (Some i) errorLog = Some (chain, errorLog)"
  by (subst walk.simps) simp

lemma walk_step:
  "truthy (previousBlockHash (chain ! i)) \<Longrightarrow>
     walk SHA256 chain (Some i) errorLog =
       walk SHA256
         (chain[i := snd (validate SHA256 (chain ! i))])
         (getBlockByHash (chain[i := snd (validate SHA256 (chain ! i))])
            (previousBlockHash (chain ! i)))
         (if fst (validate SHA256 (chain ! i)) then errorLog
          else errorLog @
            [''Block '' @ template (hash (snd (validate SHA256 (chain ! i)))) @ '' is invalid!''])"
  by (subst walk.simps) simp

lemma findIndex_first:
  "k < length xs \<Longrightarrow> P (xs ! k) \<Longrightarrow>
     \<exists>j\<le>k. findIndex P xs = Some j \<and> P (xs ! j) \<and> (\<forall>m<j. \<not> P (xs ! m))"
proof (induction xs arbitrary: k)
  case Nil
  then show ?case by simp
next
  case (Cons x xs)
  show ?case
  proof (cases "P x")
    case True
    then show ?thesis by simp
  next
    case False
    with Cons.prems obtain k' where k': "k = Suc k'" by (cases k) auto
    with Cons.prems have "k' < length xs" "P (xs ! k')" by auto
    from Cons.IH[OF this] obtain j where j: "j \<le> k'" "findIndex P xs = Some j" "P (xs ! j)"
      "\<forall>m<j. \<not> P (xs ! m)" by blast
    have "\<forall>m<Suc j. \<not> P ((x # xs) ! m)"
      using False j(4) by (auto simp: nth_Cons split: nat.splits)
    with j k' False show ?thesis by auto
  qed
qed

lemma findIndex_None: "(\<forall>x\<in>set xs. \<not> P x) \<Longrightarrow> findIndex P xs = None"
  by (induction xs) auto

lemma findIndex_Some_lt: "findIndex P xs = Some j \<Longrightarrow> j < length xs \<and> P (xs ! j)"
  by (induction xs arbitrary: j) (auto split: if_splits)

lemma findIndex_unique:
  "k < length xs \<Longrightarrow> P (xs ! k) \<Longrightarrow> (\<forall>m<k. \<not> P (xs ! m)) \<Longrightarrow> findIndex P xs = Some k"
  using findIndex_first[of k xs P] by (metis le_neq_implies_less)

lemma intact_iff: "intact SHA256 b \<longleftrightarrow> hash b = Some (SHA256 (stringify (block_rest b)))"
  by (simp add: intact_def validate_def generateHash_def Let_def)

lemma block_rest_hash [simp]: "block_rest (b\<lparr>hash := h\<rparr>) = block_rest b"
  by (simp add: block_rest_def)

lemma validate_intact: "intact SHA256 b \<Longrightarrow> validate SHA256 b = (True, b)"
  by (simp add: intact_iff validate_def generateHash_def Let_def)

lemma validate_broken:
  "\<not> intact SHA256 b \<Longrightarrow> validate SHA256 b = (False, generateHash SHA256 b)"
  by (simp add: intact_iff validate_def generateHash_def Let_def)

lemma intact_generateHash: "intact SHA256 (generateHash SHA256 b)"
  by (simp add: intact_iff generateHash_def)

lemma truthy_None [simp]: "\<not> truthy None"
  by (simp add: truthy_def)

text \<open>The walk from an intact, linked stretch of the chain changes nothing.\<close>

lemma walk_ok:
  assumes g: "previousBlockHash (chain ! 0) = None"
    and ok: "\<forall>i\<le>s. 0 < i \<longrightarrow> intact SHA256 (chain ! i) \<and>
               previousBlockHash (chain ! i) = hash (chain ! (i - 1))"
    and s: "s < length chain"
  shows "walk SHA256 chain (Some s) errorLog = Some (chain, errorLog)"
  using ok s
proof (induction s rule: less_induct)
  case (less s)
  show ?case
  proof (cases "truthy (previousBlockHash (chain ! s))")
    case False
    then show ?thesis by (rule walk_stop)
  next
    case True
    with g have pos: "0 < s" by (cases s) auto
    with less.prems have int: "intact SHA256 (chain ! s)"
      and link: "previousBlockHash (chain ! s) = hash (chain ! (s - 1))" by auto
    have upd: "chain[s := snd (validate SHA256 (chain ! s))] = chain"
      by (simp add: validate_intact[OF int])
    from pos less.prems(2) have "s - 1 < length chain" by simp
    from findIndex_first[OF this, of "\<lambda>block. hash block = hash (chain ! (s - 1))"]
    obtain j where j: "j \<le> s - 1" "getBlockByHash chain (hash (chain ! (s - 1))) = Some j"
      by (auto simp: getBlockByHash_def)
    from j pos have js: "j < s" by simp
    have "walk SHA256 chain (Some s) errorLog =
            walk SHA256 chain (getBlockByHash chain (hash (chain ! (s - 1)))) errorLog"
      unfolding walk_step[OF True] upd link by (simp add: validate_intact[OF int])
    also have "\<dots> = walk SHA256 chain (Some j) errorLog"
      unfolding j(2) ..
    also have "\<dots> = Some (chain, errorLog)"
      using less.IH[OF js] less.prems js by simp
    finally show ?thesis .
  qed
qed

lemma getLatestBlock_ok:
  assumes "chain_ok SHA256 bc"
  shows "getLatestBlock bc = Some (length (p_chain bc) - 1)"
proof -
  let ?ch = "p_chain bc" and ?n = "length (p_chain bc)"
  from assms have n: "?ch \<noteq> []" and h: "p_height bc = int ?n - 1"
    and hs: "\<forall>i<?n. height (?ch ! i) = int i" by (auto simp: chain_ok_def)
  from n have lt: "?n - 1 < ?n" by simp
  have 1: "height (?ch ! (?n - 1)) = p_height bc" using hs lt h n
    by (simp add: of_nat_diff Suc_leI)
  have 2: "\<forall>m<?n - 1. height (?ch ! m) \<noteq> p_height bc" using hs h by auto
  show ?thesis unfolding getLatestBlock_def getBlockByHeight_def
    by (rule findIndex_unique[OF lt 1 2])
qed

lemma validateChain_ok:
  assumes "chain_ok SHA256 bc"
  shows "validateChain SHA256 bc = Some (Inr (), bc)"
proof -
  let ?ch = "p_chain bc"
  from assms have n: "?ch \<noteq> []" by (simp add: chain_ok_def)
  have "walk SHA256 ?ch (Some (length ?ch - 1)) [] = Some (?ch, [])"
    using assms n by (intro walk_ok) (auto simp: chain_ok_def)
  then show ?thesis
    by (simp add: validateChain_def getLatestBlock_ok[OF assms])
qed

subsection \<open>The constructor and the appends keep the invariant\<close>

lemma chain_ok_push:
  assumes ok: "chain_ok SHA256 bc"
  shows "chain_ok SHA256
           (bc\<lparr>p_chain := p_chain bc @ [appended SHA256 ms block bc],
               p_height := p_height bc + 1\<rparr>)"
proof -
  let ?ch = "p_chain bc" and ?b = "appended SHA256 ms block bc"
  from ok have n: "?ch \<noteq> []" and h: "p_height bc = int (length ?ch) - 1"
    by (auto simp: chain_ok_def)
  have hb: "height ?b = int (length ?ch)" using h
    by (simp add: appended_def generateHash_def)
  have ib: "intact SHA256 ?b" by (simp add: appended_def intact_generateHash)
  have pb: "previousBlockHash ?b = hash (?ch ! (length ?ch - 1))" using n
    by (simp add: appended_def generateHash_def last_conv_nth)
  show ?thesis
    unfolding chain_ok_def using ok n h hb ib pb
    by (auto simp: chain_ok_def nth_append less_Suc_eq)
qed

lemma addBlock_ok:
  assumes ok: "chain_ok SHA256 bc"
  shows "addBlock SHA256 ms block bc =
           Some (Inr (), bc\<lparr>p_chain := p_chain bc @ [appended SHA256 ms block bc],
                            p_height := p_height bc + 1\<rparr>)"
proof -
  from ok have n: "p_chain bc \<noteq> []" and h: "p_height bc = int (length (p_chain bc)) - 1"
    by (auto simp: chain_ok_def)
  from n h have pos: "p_height bc > - 1" by (cases "p_chain bc") auto
  show ?thesis
    using validateChain_ok[OF chain_ok_push[OF ok, of ms block]] pos n
    by (simp add: addBlock_def getLatestBlock_ok[OF ok] appended_def Let_def last_conv_nth)
qed

lemma chain_ok_genesis: "chain_ok SHA256 \<lparr>p_chain = [genesis SHA256 ms], p_height = 0\<rparr>"
  by (simp add: chain_ok_def genesis_def intact_generateHash)
    (simp add: generateHash_def new_Block_def)

lemma new_Blockchain_eq:
  "new_Blockchain SHA256 ms = Some (Inr (), \<lparr>p_chain = [genesis SHA256 ms], p_height = 0\<rparr>)"
  using validateChain_ok[OF chain_ok_genesis, of SHA256 ms]
  by (simp add: new_Blockchain_def initializeChain_def addBlock_def getLatestBlock_def
      getBlockByHeight_def genesis_def Let_def)

lemma submitStar_cases:
  "submitStar SHA256 verify toNumber ms ms' a message signature star bc = Some (r, bc') \<Longrightarrow>
     bc' = bc \<or>
     (\<exists>r''. addBlock SHA256 ms' (new_Block (JObj [(''owner'', JStr a), (''star'', star)])) bc
        = Some (r'', bc'))"
  by (auto simp: submitStar_def Let_def split: if_splits option.splits sum.splits prod.splits)

lemma reachable_chain_ok: "reachable SHA256 bc \<Longrightarrow> chain_ok SHA256 bc"
proof (induction rule: reachable.induct)
  case (constructed ms r bc)
  then show ?case using chain_ok_genesis[of SHA256 ms] by (simp add: new_Blockchain_eq)
next
  case (added bc ms block r bc')
  then show ?case using chain_ok_push[of SHA256 bc ms block] by (simp add: addBlock_ok)
next
  case (submitted bc verify toNumber ms ms' a message signature star r' bc')
  from submitStar_cases[OF submitted.hyps(2)] show ?case
  proof
    assume "bc' = bc" with submitted.IH show ?thesis by simp
  next
    assume "\<exists>r''. addBlock SHA256 ms' (new_Block (JObj [(''owner'', JStr a), (''star'', star)])) bc
              = Some (r'', bc')"
    then show ?thesis
      using chain_ok_push[OF submitted.IH, of ms' "new_Block (JObj [(''owner'', JStr a), (''star'', star)])"]
      by (auto simp: addBlock_ok[OF submitted.IH])
  qed
qed

lemma walk_length_aux:
  "walk SHA256 chain currentBlock errorLog = Some y \<Longrightarrow> length (fst y) = length chain"
proof (rule walk.raw_induct[where P = "\<lambda>_ chain _ _ y. length (fst y) = length chain"])
  fix w :: "(string \<Rightarrow> string) \<Rightarrow> Block list \<Rightarrow> nat option \<Rightarrow> string list
    \<Rightarrow> (Block list \<times> string list) option"
  fix S ch cur errs z
  assume IH: "\<And>S ch cur errs z. w S ch cur errs = Some z \<Longrightarrow> length (fst z) = length ch"
    and body: "(case cur of
        None \<Rightarrow> Some (ch, errs)
      | Some i \<Rightarrow>
          if truthy (previousBlockHash (ch ! i)) then
            w S
              (ch[i := snd (validate S (ch ! i))])
              (getBlockByHash (ch[i := snd (validate S (ch ! i))])
                 (previousBlockHash (ch ! i)))
              (if fst (validate S (ch ! i)) then errs
               else errs @
                 [''Block '' @ template (hash (snd (validate S (ch ! i)))) @ '' is invalid!''])
          else Some (ch, errs)) = Some z"
  show "length (fst z) = length ch"
  proof (cases cur)
    case None
    with body show ?thesis by auto
  next
    case (Some i)
    show ?thesis
    proof (cases "truthy (previousBlockHash (ch ! i))")
      case True
      with body Some IH[of S "ch[i := snd (validate S (ch ! i))]"] show ?thesis
        by (auto simp del: append.simps)
    next
      case False
      with body Some show ?thesis by auto
    qed
  qed
qed

lemma walk_length:
  "walk SHA256 chain currentBlock errorLog = Some (chain', errorLog') \<Longrightarrow> length chain' = length chain"
  by (drule walk_length_aux) simp

lemma validateChain_length:
  "validateChain SHA256 bc = Some (r, bc') \<Longrightarrow>
     length (p_chain bc') = length (p_chain bc) \<and> p_height bc' = p_height bc"
  by (auto simp: validateChain_def Let_def split: option.splits dest: walk_length)

lemma addBlock_length:
  "addBlock SHA256 ms block bc = Some (r, bc') \<Longrightarrow>
     length (p_chain bc') = length (p_chain bc) + 1 \<and> p_height bc' = p_height bc + 1"
  by (auto simp: addBlock_def Let_def dest!: validateChain_length)

subsection \<open>Linkage, genesis and submission\<close>

text \<open>
  When every call has run to its end before the next is made, the ledger height is the
  size of the chain minus one, and every block at a position \<open>i > 0\<close> has the hash of
  the block at \<open>i - 1\<close> as its \<^verbatim>\<open>previousBlockHash\<close> and \<open>i\<close> as its height.
\<close>

lemma linkage_sequential:
  assumes "reachable SHA256 bc"
  shows "p_height bc = int (length (p_chain bc)) - 1 \<and>
         (\<forall>i<length (p_chain bc). 0 < i \<longrightarrow>
            previousBlockHash (p_chain bc ! i) = hash (p_chain bc ! (i - 1)) \<and>
            height (p_chain bc ! i) = int i)"
  using reachable_chain_ok[OF assms] by (simp add: chain_ok_def)

text \<open>The segments compose to the call that runs alone.\<close>

lemma validateChain_segments:
  "validateChain SHA256 bc = validateChain_rest SHA256 (getLatestBlock bc) bc"
  by (simp add: validateChain_def validateChain_rest_def Let_def)

lemma addBlock_segments:
  "addBlock SHA256 ms block bc =
     (let (b, latestBlock) = addBlock_call ms block bc;
          b' = addBlock_link SHA256 b latestBlock bc;
          (bc', currentBlock) = addBlock_push b' bc
      in validateChain_rest SHA256 currentBlock bc')"
  unfolding addBlock_def validateChain_segments
  by (simp add: addBlock_call_def addBlock_link_def addBlock_push_def Let_def)

lemma genesis_unlinked:
  "genesis SHA256 ms = unlinked SHA256 0 ms (JObj [(''data'', JStr ''Genesis Block'')])"
  by (simp add: genesis_def unlinked_def)

lemma unlinked_fields:
  "height (unlinked SHA256 n ms data) = n"
  "previousBlockHash (unlinked SHA256 n ms data) = None"
  "hash (unlinked SHA256 n ms data) \<noteq> None"
  by (simp_all add: unlinked_def generateHash_def new_Block_def)

lemma new_Blockchain_and_addBlock_eq:
  "new_Blockchain_and_addBlock SHA256 ms ms' (new_Block data) =
     Some (Inr (), Inl (InvalidChainError [''Latest block not found!'']),
           \<lparr>p_chain = [genesis SHA256 ms, unlinked SHA256 0 ms' data], p_height = 1\<rparr>)"
proof -
  let ?bc = "\<lparr>p_chain = [], p_height = - 1\<rparr>"
  let ?g = "genesis SHA256 ms" and ?b = "unlinked SHA256 0 ms' data"
  let ?bc2 = "\<lparr>p_chain = [?g, ?b], p_height = 1\<rparr>"
  have latest: "getLatestBlock ?bc = None"
    by (simp add: getLatestBlock_def getBlockByHeight_def)
  have call_g: "addBlock_call ms (new_Block (JObj [(''data'', JStr ''Genesis Block'')])) ?bc
      = ((new_Block (JObj [(''data'', JStr ''Genesis Block'')]))
           \<lparr>height := 0, time := getTimeInSeconds ms\<rparr>, None)"
    by (simp add: addBlock_call_def latest)
  have call_b: "addBlock_call ms' (new_Block data) ?bc
      = ((new_Block data)\<lparr>height := 0, time := getTimeInSeconds ms'\<rparr>, None)"
    by (simp add: addBlock_call_def latest)
  have link_g: "addBlock_link SHA256
      ((new_Block (JObj [(''data'', JStr ''Genesis Block'')]))
         \<lparr>height := 0, time := getTimeInSeconds ms\<rparr>) None ?bc = ?g"
    by (simp add: addBlock_link_def genesis_def)
  have link_b: "addBlock_link SHA256
      ((new_Block data)\<lparr>height := 0, time := getTimeInSeconds ms'\<rparr>) None ?bc = ?b"
    by (simp add: addBlock_link_def unlinked_def)
  have hg: "previousBlockHash ?g = None" "height ?g = 0"
    by (simp_all add: genesis_unlinked unlinked_fields)
  have hb: "height ?b = 0"
    by (simp add: unlinked_fields)
  have push_g: "addBlock_push ?g ?bc = (\<lparr>p_chain = [?g], p_height = 0\<rparr>, Some 0)"
    by (simp add: addBlock_push_def getLatestBlock_def getBlockByHeight_def hg)
  have push_b: "addBlock_push ?b \<lparr>p_chain = [?g], p_height = 0\<rparr> = (?bc2, None)"
    by (simp add: addBlock_push_def getLatestBlock_def getBlockByHeight_def hg hb)
  have rest_g: "validateChain_rest SHA256 (Some 0) ?bc2 = Some (Inr (), ?bc2)"
    by (simp add: validateChain_rest_def walk_stop hg)
  have rest_b: "validateChain_rest SHA256 None ?bc2
      = Some (Inl (InvalidChainError [''Latest block not found!'']), ?bc2)"
    by (simp add: validateChain_rest_def walk_None)
  show ?thesis
    unfolding new_Blockchain_and_addBlock_def Let_def call_g call_b prod.case link_g link_b
      push_g push_b rest_g rest_b option.case
    by simp
qed

lemma addBlock_after_overlap:
  "addBlock SHA256 ms'' (new_Block data')
     \<lparr>p_chain = [genesis SHA256 ms, unlinked SHA256 0 ms' data], p_height = 1\<rparr>
   = Some (Inr (),
       \<lparr>p_chain = [genesis SHA256 ms, unlinked SHA256 0 ms' data, unlinked SHA256 2 ms'' data'],
        p_height = 2\<rparr>)"
proof -
  let ?g = "genesis SHA256 ms" and ?b = "unlinked SHA256 0 ms' data"
    and ?c = "unlinked SHA256 2 ms'' data'"
  let ?bc = "\<lparr>p_chain = [?g, ?b], p_height = 1\<rparr>"
  let ?bc' = "\<lparr>p_chain = [?g, ?b, ?c], p_height = 2\<rparr>"
  have hg: "height ?g = 0" by (simp add: genesis_unlinked unlinked_fields)
  have latest: "getLatestBlock ?bc = None"
    by (simp add: getLatestBlock_def getBlockByHeight_def hg unlinked_fields)
  have call: "addBlock_call ms'' (new_Block data') ?bc
      = ((new_Block data')\<lparr>height := 2, time := getTimeInSeconds ms''\<rparr>, None)"
    by (simp add: addBlock_call_def latest)
  have link: "addBlock_link SHA256
      ((new_Block data')\<lparr>height := 2, time := getTimeInSeconds ms''\<rparr>) None ?bc = ?c"
    by (simp add: addBlock_link_def unlinked_def)
  have push: "addBlock_push ?c ?bc = (?bc', Some 2)"
    by (simp add: addBlock_push_def getLatestBlock_def getBlockByHeight_def hg unlinked_fields)
  have "walk SHA256 [?g, ?b, ?c] (Some 2) [] = Some ([?g, ?b, ?c], [])"
    by (rule walk_stop) (simp add: unlinked_fields)
  then have rest: "validateChain_rest SHA256 (Some 2) ?bc' = Some (Inr (), ?bc')"
    by (simp add: validateChain_rest_def)
  show ?thesis
    unfolding addBlock_segments Let_def call prod.case link push rest ..
qed

text \<open>
  Claim C4. The claim is that after the construction and after every successful append
  each block at a position \<open>i > 0\<close> has the hash of the block at \<open>i - 1\<close> as its
  \<^verbatim>\<open>previousBlockHash\<close> and \<open>i\<close> as its height. The code breaks it when an append is
  made in the tick of the construction: both calls read the height \<open>-1\<close> and find no
  latest block, the genesis settles, the append is rejected with "Latest block not
  found!" and its block stays in the chain at height 0 with no previous hash. The next
  append, run alone, finds no block of height 1, succeeds, and leaves its own block at
  position 2 with no previous hash, after a block at position 1 of height 0.
\<close>

theorem overlapping_append_breaks_linkage:
  "new_Blockchain_and_addBlock SHA256 ms ms' (new_Block data) =
     Some (Inr (), Inl (InvalidChainError [''Latest block not found!'']),
           \<lparr>p_chain = [genesis SHA256 ms, unlinked SHA256 0 ms' data], p_height = 1\<rparr>) \<and>
   addBlock SHA256 ms'' (new_Block data')
     \<lparr>p_chain = [genesis SHA256 ms, unlinked SHA256 0 ms' data], p_height = 1\<rparr>
   = Some (Inr (),
       \<lparr>p_chain = [genesis SHA256 ms, unlinked SHA256 0 ms' data, unlinked SHA256 2 ms'' data'],
        p_height = 2\<rparr>) \<and>
   height (unlinked SHA256 0 ms' data) \<noteq> 1 \<and>
   previousBlockHash (unlinked SHA256 0 ms' data) \<noteq> hash (genesis SHA256 ms) \<and>
   previousBlockHash (unlinked SHA256 2 ms'' data') \<noteq> hash (unlinked SHA256 0 ms' data)"
proof -
  have g: "hash (genesis SHA256 ms) \<noteq> None"
    by (simp add: genesis_unlinked unlinked_fields)
  have b: "hash (unlinked SHA256 0 ms' data) \<noteq> None"
    by (simp add: unlinked_fields)
  have 1: "previousBlockHash (unlinked SHA256 0 ms' data) \<noteq> hash (genesis SHA256 ms)"
    using g by (auto simp: unlinked_fields(2))
  have 2: "previousBlockHash (unlinked SHA256 2 ms'' data') \<noteq> hash (unlinked SHA256 0 ms' data)"
    using b by (auto simp: unlinked_fields(2))
  have 3: "height (unlinked SHA256 0 ms' data) \<noteq> 1"
    by (simp add: unlinked_fields(1))
  from new_Blockchain_and_addBlock_eq addBlock_after_overlap 1 2 3 show ?thesis
    by blast
qed

text \<open>
  Claim C5. The constructor, once its initialization has run, leaves a ledger of height
  0 with exactly one block; that block has no previous hash, and \<^verbatim>\<open>getBData\<close> on
  it is null whatever its body holds.
\<close>

theorem genesis_invariant:
  "\<exists>g. new_Blockchain SHA256 ms = Some (Inr (), \<lparr>p_chain = [g], p_height = 0\<rparr>) \<and>
       previousBlockHash g = None \<and>
       (\<forall>x. getBData hex2ascii JSON_parse (g\<lparr>body := x\<rparr>) = Inr JNull)"
  by (rule exI[of _ "genesis SHA256 ms"])
    (simp add: new_Blockchain_eq genesis_def generateHash_def new_Block_def getBData_def)

text \<open>
  Claim C6. A \<^verbatim>\<open>submitStar\<close> that fails the time check or the signature check returns
  its error and the ledger it was given; one that passes both appends exactly one block
  (with the height one more), and on a ledger built by calls run one after another it
  returns that block.
\<close>

theorem submitStar_atomic:
  fixes SHA256 verify toNumber ms ms' a message signature star bc
  defines "messageTime \<equiv> BlockMessage.time (parse toNumber message (new_BlockMessage None None))"
    and "submit \<equiv> submitStar SHA256 verify toNumber ms ms' a message signature star bc"
  shows "(\<not> ValidTime ms messageTime \<longrightarrow> submit = Some (Inl (Error ''Message is too old!''), bc)) \<and>
         (ValidTime ms messageTime \<and> \<not> verify message a signature \<longrightarrow>
            submit = Some (Inl (Error ''Message is invalid!''), bc)) \<and>
         (\<forall>r bc'. ValidTime ms messageTime \<and> verify message a signature \<and> submit = Some (r, bc') \<longrightarrow>
            length (p_chain bc') = length (p_chain bc) + 1 \<and> p_height bc' = p_height bc + 1) \<and>
         (ValidTime ms messageTime \<and> verify message a signature \<and> reachable SHA256 bc \<longrightarrow>
            (\<exists>block. submit = Some (Inr block,
               bc\<lparr>p_chain := p_chain bc @ [block], p_height := p_height bc + 1\<rparr>)))"
proof (intro conjI allI impI)
  assume "\<not> ValidTime ms messageTime"
  then show "submit = Some (Inl (Error ''Message is too old!''), bc)"
    by (simp add: submit_def messageTime_def submitStar_def)
next
  assume "ValidTime ms messageTime \<and> \<not> verify message a signature"
  then show "submit = Some (Inl (Error ''Message is invalid!''), bc)"
    by (simp add: submit_def messageTime_def submitStar_def)
next
  fix r bc'
  assume "ValidTime ms messageTime \<and> verify message a signature \<and> submit = Some (r, bc')"
  then have "\<exists>r''. addBlock SHA256 ms' (new_Block (JObj [(''owner'', JStr a), (''star'', star)])) bc
                = Some (r'', bc')"
    by (auto simp: submit_def messageTime_def submitStar_def split: option.splits sum.splits)
  then show "length (p_chain bc') = length (p_chain bc) + 1" "p_height bc' = p_height bc + 1"
    by (auto dest: addBlock_length)
next
  assume a: "ValidTime ms messageTime \<and> verify message a signature \<and> reachable SHA256 bc"
  then have ok: "chain_ok SHA256 bc" by (simp add: reachable_chain_ok)
  show "\<exists>block. submit = Some (Inr block,
          bc\<lparr>p_chain := p_chain bc @ [block], p_height := p_height bc + 1\<rparr>)"
    using a by (simp add: submit_def messageTime_def submitStar_def addBlock_ok[OF ok])
qed

text \<open>
  Claim C1. The claim is that a challenge at most 300 seconds old is accepted and an
  older one is rejected as expired. The code does the opposite: when the parsed time
  is at most 300 seconds before the clock, \<^verbatim>\<open>submitStar\<close> throws "Message is too old!",
  and when it is more than 300 seconds before, that error is never thrown.
\<close>

theorem submitStar_window_inverted:
  assumes "BlockMessage.time (parse toNumber message (new_BlockMessage None None)) = Some t"
  shows "(getTimeInSeconds ms - t \<le> 300 \<longrightarrow>
            submitStar SHA256 verify toNumber ms ms' a message signature star bc
              = Some (Inl (Error ''Message is too old!''), bc)) \<and>
         (getTimeInSeconds ms - t > 300 \<longrightarrow>
            (\<forall>bc'. submitStar SHA256 verify toNumber ms ms' a message signature star bc
              \<noteq> Some (Inl (Error ''Message is too old!''), bc')))"
proof (intro conjI impI allI)
  assume "getTimeInSeconds ms - t \<le> 300"
  with assms show "submitStar SHA256 verify toNumber ms ms' a message signature star bc
      = Some (Inl (Error ''Message is too old!''), bc)"
    by (simp add: submitStar_def ValidTime_def)
next
  fix bc'
  assume "getTimeInSeconds ms - t > 300"
  with assms have v: "ValidTime ms (BlockMessage.time (parse toNumber message (new_BlockMessage None None)))"
    by (simp add: ValidTime_def)
  have e: "\<And>r b. validateChain SHA256 b = Some (r, bc') \<Longrightarrow> r \<noteq> Inl (Error ''Message is too old!'')"
    by (auto simp: validateChain_def Let_def split: option.splits if_splits)
  show "submitStar SHA256 verify toNumber ms ms' a message signature star bc
      \<noteq> Some (Inl (Error ''Message is too old!''), bc')"
    using v e by (auto simp: submitStar_def addBlock_def Let_def split: option.splits sum.splits)
qed

text \<open>
  Claim C10. In every ledger the constructor and the appends, run one after another,
  produce, every block of the
  chain has a hash; so \<^verbatim>\<open>getBlockByHash(null)\<close> finds no block, and neither does
  \<^verbatim>\<open>getBlockByHash\<close> of any hash that no block of the chain has.
\<close>

theorem stored_hash_invariant:
  assumes "reachable SHA256 bc"
  shows "(\<forall>b\<in>set (p_chain bc). hash b \<noteq> None) \<and>
         getBlockByHash (p_chain bc) None = None \<and>
         (\<forall>h. h \<notin> hash ` set (p_chain bc) \<longrightarrow> getBlockByHash (p_chain bc) h = None)"
proof -
  from reachable_chain_ok[OF assms] have "\<forall>i<length (p_chain bc). intact SHA256 (p_chain bc ! i)"
    by (simp add: chain_ok_def)
  then have 1: "\<forall>b\<in>set (p_chain bc). hash b \<noteq> None"
    by (auto simp: in_set_conv_nth intact_iff)
  have 3: "\<forall>h. h \<notin> hash ` set (p_chain bc) \<longrightarrow> getBlockByHash (p_chain bc) h = None"
    unfolding getBlockByHash_def by (auto intro!: findIndex_None)
  from 1 have "None \<notin> hash ` set (p_chain bc)" by force
  with 3 have 2: "getBlockByHash (p_chain bc) None = None" by blast
  from 1 2 3 show ?thesis by blast
qed

subsection \<open>Validation after a body was overwritten\<close>

lemma getLatestBlock_heights:
  assumes "p_chain bc \<noteq> []" and "p_height bc = int (length (p_chain bc)) - 1"
    and "\<forall>i<length (p_chain bc). height (p_chain bc ! i) = int i"
  shows "getLatestBlock bc = Some (length (p_chain bc) - 1)"
proof -
  let ?ch = "p_chain bc" and ?n = "length (p_chain bc)"
  from assms(1) have lt: "?n - 1 < ?n" by simp
  have 1: "height (?ch ! (?n - 1)) = p_height bc" using assms lt
    by (simp add: of_nat_diff Suc_leI)
  have 2: "\<forall>m<?n - 1. height (?ch ! m) \<noteq> p_height bc" using assms by auto
  show ?thesis unfolding getLatestBlock_def getBlockByHeight_def
    by (rule findIndex_unique[OF lt 1 2])
qed

lemma nth_set_body:
  assumes "i < length ch"
  shows "hash (ch[k := (ch ! k)\<lparr>body := x\<rparr>] ! i) = hash (ch ! i)"
    and "height (ch[k := (ch ! k)\<lparr>body := x\<rparr>] ! i) = height (ch ! i)"
    and "previousBlockHash (ch[k := (ch ! k)\<lparr>body := x\<rparr>] ! i) = previousBlockHash (ch ! i)"
    and "i \<noteq> k \<Longrightarrow> ch[k := b] ! i = ch ! i"
  using assms by (cases "k = i"; simp)+

lemma getLatestBlock_set_body:
  assumes "chain_ok SHA256 bc"
  shows "getLatestBlock (set_body k x bc) = Some (length (p_chain bc) - 1)"
proof (cases "k < length (p_chain bc)")
  case False
  then show ?thesis using getLatestBlock_ok[OF assms] by (simp add: set_body_def)
next
  case True
  let ?bc = "set_body k x bc"
  from True have ch: "p_chain ?bc = (p_chain bc)[k := (p_chain bc ! k)\<lparr>body := x\<rparr>]"
    and h: "p_height ?bc = p_height bc" by (simp_all add: set_body_def)
  have "getLatestBlock ?bc = Some (length (p_chain ?bc) - 1)"
    using assms by (intro getLatestBlock_heights) (auto simp: ch h chain_ok_def nth_set_body)
  then show ?thesis by (simp add: ch)
qed

text \<open>
  Claim C9. On a ledger built by calls run one after another, after the body of the
  genesis block is mutated,
  \<^verbatim>\<open>validateChain\<close> returns without a fault and leaves every block as it was: the walk
  stops at the block whose \<^verbatim>\<open>previousBlockHash\<close> is null before validating it.
\<close>

theorem genesis_never_validated:
  assumes "reachable SHA256 bc"
  shows "validateChain SHA256 (set_body 0 x bc) = Some (Inr (), set_body 0 x bc)"
proof -
  let ?ch = "p_chain bc"
  let ?ch' = "?ch[0 := (?ch ! 0)\<lparr>body := x\<rparr>]"
  from assms have ok: "chain_ok SHA256 bc" by (rule reachable_chain_ok)
  then have n: "?ch \<noteq> []" by (simp add: chain_ok_def)
  then have bc': "set_body 0 x bc = bc\<lparr>p_chain := ?ch'\<rparr>" by (simp add: set_body_def)
  have g: "previousBlockHash (?ch' ! 0) = None" using ok n by (simp add: chain_ok_def)
  have rest: "\<forall>i\<le>length ?ch - 1. 0 < i \<longrightarrow> intact SHA256 (?ch' ! i) \<and>
      previousBlockHash (?ch' ! i) = hash (?ch' ! (i - 1))"
  proof (intro allI impI)
    fix i assume i: "i \<le> length ?ch - 1" "0 < i"
    with n have lt: "i < length ?ch" by (cases ?ch) auto
    with ok i have "intact SHA256 (?ch ! i)" "previousBlockHash (?ch ! i) = hash (?ch ! (i - 1))"
      by (auto simp: chain_ok_def)
    moreover have "hash (?ch' ! (i - 1)) = hash (?ch ! (i - 1))"
      using lt by (intro nth_set_body) simp
    ultimately show "intact SHA256 (?ch' ! i) \<and> previousBlockHash (?ch' ! i) = hash (?ch' ! (i - 1))"
      using i by simp
  qed
  have "walk SHA256 ?ch' (Some (length ?ch - 1)) [] = Some (?ch', [])"
    using g rest n by (intro walk_ok) auto
  then show ?thesis
    using getLatestBlock_set_body[OF ok, of 0 x]
    by (simp add: validateChain_def bc')
qed

text \<open>
  Claim C2. The claim is that a \<^verbatim>\<open>previousBlockHash\<close> that no block of the chain has
  is recorded as a fault. The code records nothing: when the latest block is intact and
  its non-empty \<^verbatim>\<open>previousBlockHash\<close> is the hash of no block, \<^verbatim>\<open>validateChain\<close>
  returns without a fault.
\<close>

theorem dangling_link_unreported:
  assumes "getLatestBlock bc = Some k"
    and "intact SHA256 (p_chain bc ! k)"
    and "truthy (previousBlockHash (p_chain bc ! k))"
    and "getBlockByHash (p_chain bc) (previousBlockHash (p_chain bc ! k)) = None"
  shows "validateChain SHA256 bc = Some (Inr (), bc)"
proof -
  have "walk SHA256 (p_chain bc) (Some k) [] = Some (p_chain bc, [])"
    by (simp add: walk_step[OF assms(3)] validate_intact[OF assms(2)] assms(4) walk_None)
  then show ?thesis by (simp add: validateChain_def assms(1))
qed

lemma getBlockByHash_distinct:
  assumes d: "distinct (map hash ch)" and i: "i < length ch"
    and same: "\<forall>j\<le>i. hash (ch' ! j) = hash (ch ! j)" and len: "length ch' = length ch"
  shows "getBlockByHash ch' (hash (ch ! i)) = Some i"
  unfolding getBlockByHash_def
proof (rule findIndex_unique)
  show "i < length ch'" using i len by simp
  show "hash (ch' ! i) = hash (ch ! i)" using same by simp
  show "\<forall>m<i. hash (ch' ! m) \<noteq> hash (ch ! i)"
  proof (intro allI impI)
    fix m assume m: "m < i"
    then have "hash (ch' ! m) = hash (ch ! m)" using same by simp
    moreover have "hash (ch ! m) \<noteq> hash (ch ! i)"
      using d i m by (auto simp: distinct_conv_nth)
    ultimately show "hash (ch' ! m) \<noteq> hash (ch ! i)" by simp
  qed
qed

text \<open>
  Claim C3. On a ledger built by calls run one after another, whose stored hashes are
  non-empty and pairwise
  distinct, after the body of a block \<open>k > 0\<close> is mutated so that the block's digest
  changes, \<^verbatim>\<open>validateChain\<close> fails with an \<^verbatim>\<open>InvalidChainError\<close> that carries the whole
  error log: the one fault of the walk, which names the mutated block by its recomputed
  hash. The call also stores that hash in the block. (With several bodies overwritten
  the log has one fault for each, the latest block first: lemma
  \<open>validateChain_reports_every_fault\<close>.)
\<close>

theorem tamper_detected:
  assumes r: "reachable SHA256 bc"
    and k: "0 < k" "k < length (p_chain bc)"
    and nonempty: "\<forall>b\<in>set (p_chain bc). hash b \<noteq> Some []"
    and dist: "distinct (map hash (p_chain bc))"
    and sens: "SHA256 (stringify (block_rest ((p_chain bc ! k)\<lparr>body := x\<rparr>)))
                 \<noteq> SHA256 (stringify (block_rest (p_chain bc ! k)))"
  shows "validateChain SHA256 (set_body k x bc) =
           Some (Inl (InvalidChainError
                   [''Block '' @ SHA256 (stringify (block_rest ((p_chain bc ! k)\<lparr>body := x\<rparr>)))
                      @ '' is invalid!'']),
                 bc\<lparr>p_chain := (p_chain bc)[k := generateHash SHA256 ((p_chain bc ! k)\<lparr>body := x\<rparr>)]\<rparr>)"
proof -
  let ?ch = "p_chain bc"
  let ?n = "length ?ch"
  let ?m = "(?ch ! k)\<lparr>body := x\<rparr>"
  let ?ch' = "?ch[k := ?m]"
  let ?healed = "generateHash SHA256 ?m"
  let ?ch'' = "?ch[k := ?healed]"
  let ?msg = "''Block '' @ SHA256 (stringify (block_rest ?m)) @ '' is invalid!''"
  from r have ok: "chain_ok SHA256 bc" by (rule reachable_chain_ok)
  then have intact: "\<And>i. i < ?n \<Longrightarrow> intact SHA256 (?ch ! i)"
    and link: "\<And>i. i < ?n \<Longrightarrow> 0 < i \<Longrightarrow> previousBlockHash (?ch ! i) = hash (?ch ! (i - 1))"
    and gen: "previousBlockHash (?ch ! 0) = None"
    by (auto simp: chain_ok_def)
  have truthy: "\<And>i. i < ?n \<Longrightarrow> truthy (hash (?ch ! i))"
  proof -
    fix i assume i: "i < ?n"
    then have "?ch ! i \<in> set ?ch" by simp
    with nonempty have "hash (?ch ! i) \<noteq> Some []" by blast
    with intact[OF i] show "truthy (hash (?ch ! i))"
      by (auto simp: truthy_def intact_iff)
  qed
  have bc': "set_body k x bc = bc\<lparr>p_chain := ?ch'\<rparr>" using k by (simp add: set_body_def)
  have hash': "\<And>j. j < ?n \<Longrightarrow> hash (?ch' ! j) = hash (?ch ! j)"
    by (rule nth_set_body)
  \<comment> \<open>the walk from the latest block down to the mutated one\<close>
  have down: "k \<le> i \<Longrightarrow> i < ?n \<Longrightarrow>
      walk SHA256 ?ch' (Some i) errorLog = walk SHA256 ?ch' (Some k) errorLog" for i errorLog
  proof (induction i)
    case 0
    then show ?case by simp
  next
    case (Suc i)
    show ?case
    proof (cases "k = Suc i")
      case True
      then show ?thesis by simp
    next
      case False
      with Suc.prems have ki: "k \<le> i" and i: "i < ?n" by simp_all
      from False have same: "?ch' ! Suc i = ?ch ! Suc i" by simp
      have prev: "previousBlockHash (?ch ! Suc i) = hash (?ch ! i)"
        using link[OF Suc.prems(2)] by simp
      have t: "truthy (previousBlockHash (?ch' ! Suc i))"
        unfolding same prev by (rule truthy[OF i])
      have v: "validate SHA256 (?ch' ! Suc i) = (True, ?ch' ! Suc i)"
        unfolding same by (rule validate_intact[OF intact[OF Suc.prems(2)]])
      have look: "getBlockByHash ?ch' (hash (?ch ! i)) = Some i"
        using dist i hash' by (intro getBlockByHash_distinct) auto
      have pl: "getBlockByHash ?ch' (previousBlockHash (?ch' ! Suc i)) = Some i"
        unfolding same prev by (rule look)
      have "walk SHA256 ?ch' (Some (Suc i)) errorLog = walk SHA256 ?ch' (Some i) errorLog"
        unfolding walk_step[OF t] v by (simp only: fst_conv snd_conv if_True list_update_id pl)
      with Suc.IH[OF ki i] show ?thesis by simp
    qed
  qed
  \<comment> \<open>the step at the mutated block\<close>
  have km: "?ch' ! k = ?m" using k by simp
  have tk: "truthy (previousBlockHash (?ch' ! k))"
    using link[OF k(2) k(1)] truthy[of "k - 1"] k by (simp add: km)
  have "\<not> intact SHA256 ?m"
    using intact[OF k(2)] sens by (simp add: intact_iff)
  then have vk: "validate SHA256 (?ch' ! k) = (False, ?healed)"
    unfolding km by (rule validate_broken)
  have upd: "?ch'[k := ?healed] = ?ch''" by simp
  have same'': "\<And>j. j < k \<Longrightarrow> ?ch'' ! j = ?ch ! j" by simp
  have lookk: "getBlockByHash ?ch'' (hash (?ch ! (k - 1))) = Some (k - 1)"
    using dist k same'' by (intro getBlockByHash_distinct) auto
  have stepk: "walk SHA256 ?ch' (Some k) errorLog = walk SHA256 ?ch'' (Some (k - 1)) (errorLog @ [?msg])"
    for errorLog
    unfolding walk_step[OF tk] vk
    using link[OF k(2) k(1)] lookk by (simp add: km upd generateHash_def template_def)
  \<comment> \<open>the rest of the walk\<close>
  have below: "walk SHA256 ?ch'' (Some (k - 1)) errorLog = Some (?ch'', errorLog)" for errorLog
  proof (rule walk_ok)
    show "previousBlockHash (?ch'' ! 0) = None" using gen k by simp
    show "k - 1 < length ?ch''" using k by simp
    show "\<forall>i\<le>k - 1. 0 < i \<longrightarrow> intact SHA256 (?ch'' ! i) \<and>
            previousBlockHash (?ch'' ! i) = hash (?ch'' ! (i - 1))"
    proof (intro allI impI)
      fix i assume i: "i \<le> k - 1" "0 < i"
      with k have lt: "i < k" "i - 1 < k" "i < ?n" by auto
      show "intact SHA256 (?ch'' ! i) \<and> previousBlockHash (?ch'' ! i) = hash (?ch'' ! (i - 1))"
        unfolding same''[OF lt(1)] same''[OF lt(2)]
        using intact[OF lt(3)] link[OF lt(3) i(2)] by simp
    qed
  qed
  have "walk SHA256 ?ch' (Some (?n - 1)) [] = Some (?ch'', [?msg])"
    using down[of "?n - 1" "[]"] k stepk[of "[]"] below[of "[?msg]"] by simp
  then show ?thesis
    using getLatestBlock_set_body[OF ok, of k x]
    by (simp add: validateChain_def bc')
qed

subsection \<open>Concrete runs\<close>

lemmas text_defs = quote_def quote_char_def dq_def bs_def Buffer_from_def utf8_char_def
  toString_hex_def hex_byte_def hex_char_def show_int_def digit_char_def char_of_eq_iff

lemma body0:
  "toString_hex (Buffer_from (stringify (JObj [(''data'', JStr ''Genesis Block'')])))
     = ''7b2264617461223a2247656e6573697320426c6f636b227d''"
  by (simp add: text_defs)

lemma body1:
  "toString_hex (Buffer_from (stringify (JObj [(''owner'', JStr ''a''), (''star'', JNum 1)])))
     = ''7b226f776e6572223a2261222c2273746172223a317d''"
  by (simp add: text_defs show_nat.simps)

lemma body2:
  "toString_hex (Buffer_from (stringify (JObj [(''owner'', JStr ''b''), (''star'', JNum 2)])))
     = ''7b226f776e6572223a2262222c2273746172223a327d''"
  by (simp add: text_defs show_nat.simps)

lemma digest0: "toy_digest (stringify (block_rest block0)) = ''707308''"
  by (simp add: block0_def block_rest_def toy_digest_def text_defs show_nat.simps)

lemma digest1: "toy_digest (stringify (block_rest block1)) = ''676994''"
  by (simp add: block1_def block_rest_def toy_digest_def text_defs show_nat.simps)

lemma digest2: "toy_digest (stringify (block_rest block2)) = ''283696''"
  by (simp add: block2_def block_rest_def toy_digest_def text_defs show_nat.simps)

lemma digest1_mutated: "toy_digest (stringify (block_rest (block1\<lparr>body := ''00''\<rparr>))) = ''620535''"
  by (simp add: block1_def block_rest_def toy_digest_def text_defs show_nat.simps)

lemma genesis_toy: "genesis toy_digest 1000 = block0"
proof -
  have "genesis toy_digest 1000 = generateHash toy_digest (block0\<lparr>hash := None\<rparr>)"
    unfolding genesis_def new_Block_def body0 by (simp add: block0_def getTimeInSeconds_def)
  also have "\<dots> = block0"
    by (simp add: generateHash_def digest0) (simp add: block0_def)
  finally show ?thesis .
qed

lemma appended_toy1:
  "appended toy_digest 2000 (new_Block (JObj [(''owner'', JStr ''a''), (''star'', JNum 1)])) ledger1 = block1"
proof -
  have "appended toy_digest 2000 (new_Block (JObj [(''owner'', JStr ''a''), (''star'', JNum 1)])) ledger1
      = generateHash toy_digest (block1\<lparr>hash := None\<rparr>)"
    unfolding appended_def new_Block_def body1
    by (simp add: block1_def block0_def ledger1_def getTimeInSeconds_def)
  also have "\<dots> = block1"
    by (simp add: generateHash_def digest1) (simp add: block1_def)
  finally show ?thesis .
qed

lemma appended_toy2:
  "appended toy_digest 3000 (new_Block (JObj [(''owner'', JStr ''b''), (''star'', JNum 2)])) ledger2 = block2"
proof -
  have "appended toy_digest 3000 (new_Block (JObj [(''owner'', JStr ''b''), (''star'', JNum 2)])) ledger2
      = generateHash toy_digest (block2\<lparr>hash := None\<rparr>)"
    unfolding appended_def new_Block_def body2
    by (simp add: block2_def block1_def ledger2_def getTimeInSeconds_def)
  also have "\<dots> = block2"
    by (simp add: generateHash_def digest2) (simp add: block2_def)
  finally show ?thesis .
qed

lemma reachable_ledger1: "reachable toy_digest ledger1"
  by (rule reachable.constructed[of toy_digest 1000 "Inr ()"])
    (simp add: new_Blockchain_eq genesis_toy ledger1_def)

lemma reachable_ledger2: "reachable toy_digest ledger2"
proof (rule reachable.added[OF reachable_ledger1])
  show "addBlock toy_digest 2000 (new_Block (JObj [(''owner'', JStr ''a''), (''star'', JNum 1)])) ledger1
      = Some (Inr (), ledger2)"
    unfolding addBlock_ok[OF reachable_chain_ok[OF reachable_ledger1]] appended_toy1
    by (simp add: ledger1_def ledger2_def)
qed

lemma reachable_ledger3: "reachable toy_digest ledger3"
proof (rule reachable.added[OF reachable_ledger2])
  show "addBlock toy_digest 3000 (new_Block (JObj [(''owner'', JStr ''b''), (''star'', JNum 2)])) ledger2
      = Some (Inr (), ledger3)"
    unfolding addBlock_ok[OF reachable_chain_ok[OF reachable_ledger2]] appended_toy2
    by (simp add: ledger2_def ledger3_def)
qed

theorem stored_hash_invariant_witness:
  "reachable toy_digest ledger3 \<and>
   hash (p_chain ledger3 ! 2) \<noteq> None \<and>
   getBlockByHash (p_chain ledger3) None = None \<and>
   getBlockByHash (p_chain ledger3) (Some ''0'') = None"
proof -
  note inv = stored_hash_invariant[OF reachable_ledger3]
  have "p_chain ledger3 ! 2 \<in> set (p_chain ledger3)" by (simp add: ledger3_def)
  with inv have 1: "hash (p_chain ledger3 ! 2) \<noteq> None" by blast
  have "Some ''0'' \<notin> hash ` set (p_chain ledger3)"
    by (simp add: ledger3_def block0_def block1_def block2_def)
  with inv have 2: "getBlockByHash (p_chain ledger3) (Some ''0'') = None" by blast
  from inv 1 2 reachable_ledger3 show ?thesis by blast
qed

theorem genesis_never_validated_witness:
  "reachable toy_digest ledger3 \<and>
   validateChain toy_digest (set_body 0 ''00'' ledger3) = Some (Inr (), set_body 0 ''00'' ledger3) \<and>
   set_body 0 ''00'' ledger3 = \<lparr>p_chain = [block0\<lparr>body := ''00''\<rparr>, block1, block2], p_height = 2\<rparr>"
  using genesis_never_validated[OF reachable_ledger3, of "''00''"] reachable_ledger3
  by (simp add: set_body_def ledger3_def)

theorem tamper_detected_witness:
  "validateChain toy_digest (set_body 1 ''00'' ledger3)
     = Some (Inl (InvalidChainError [''Block 620535 is invalid!'']), ledger3_healed)"
proof -
  have k: "0 < (1::nat)" "1 < length (p_chain ledger3)" by (simp_all add: ledger3_def)
  have b1: "p_chain ledger3 ! 1 = block1" by (simp add: ledger3_def)
  have nonempty: "\<forall>b\<in>set (p_chain ledger3). hash b \<noteq> Some []"
    by (simp add: ledger3_def block0_def block1_def block2_def)
  have dist: "distinct (map hash (p_chain ledger3))"
    by (simp add: ledger3_def block0_def block1_def block2_def)
  have sens: "toy_digest (stringify (block_rest ((p_chain ledger3 ! 1)\<lparr>body := ''00''\<rparr>)))
      \<noteq> toy_digest (stringify (block_rest (p_chain ledger3 ! 1)))"
    unfolding b1 digest1 digest1_mutated by simp
  have healed: "ledger3\<lparr>p_chain := (p_chain ledger3)
      [1 := generateHash toy_digest (block1\<lparr>body := ''00''\<rparr>)]\<rparr> = ledger3_healed"
    unfolding generateHash_def digest1_mutated by (simp add: ledger3_def ledger3_healed_def)
  have "validateChain toy_digest (set_body 1 ''00'' ledger3)
     = Some (Inl (InvalidChainError [''Block '' @ ''620535'' @ '' is invalid!'']), ledger3_healed)"
    using tamper_detected[OF reachable_ledger3 k nonempty dist sens]
    unfolding b1 digest1_mutated healed .
  then show ?thesis by simp
qed

theorem dangling_link_unreported_witness:
  "truthy (previousBlockHash (p_chain ledger3_healed ! 2)) \<and>
   getBlockByHash (p_chain ledger3_healed) (previousBlockHash (p_chain ledger3_healed ! 2)) = None \<and>
   validateChain toy_digest ledger3_healed = Some (Inr (), ledger3_healed)"
proof -
  have b2: "p_chain ledger3_healed ! 2 = block2" by (simp add: ledger3_healed_def)
  have latest: "getLatestBlock ledger3_healed = Some 2"
    by (simp add: getLatestBlock_def getBlockByHeight_def ledger3_healed_def
        block0_def block1_def block2_def)
  have int: "intact toy_digest (p_chain ledger3_healed ! 2)"
    unfolding b2 intact_iff digest2 by (simp add: block2_def)
  have t: "truthy (previousBlockHash (p_chain ledger3_healed ! 2))"
    unfolding b2 by (simp add: block2_def truthy_def)
  have none: "getBlockByHash (p_chain ledger3_healed) (previousBlockHash (p_chain ledger3_healed ! 2)) = None"
    unfolding b2
    by (simp add: getBlockByHash_def ledger3_healed_def block0_def block1_def block2_def)
  from dangling_link_unreported[OF latest int t none] t none show ?thesis by simp
qed

lemma split_challenge: "split CHR '':'' ''a:1000:starRegistry'' = [''a'', ''1000'', ''starRegistry'']"
  by simp

lemma parse_challenge:
  "BlockMessage.time (parse decimal_toNumber ''a:1000:starRegistry'' (new_BlockMessage None None)) = Some 1000"
  unfolding parse_def split_challenge by (simp add: decimal_toNumber_def)

theorem submitStar_window_inverted_witness:
  "submitStar toy_digest (\<lambda>message a signature. True) decimal_toNumber 1000000 1000000
       ''a'' ''a:1000:starRegistry'' ''sig'' (JNum 1) ledger1
     = Some (Inl (Error ''Message is too old!''), ledger1) \<and>
   submitStar toy_digest (\<lambda>message a signature. True) decimal_toNumber 1301000 1301000
       ''a'' ''a:1000:starRegistry'' ''sig'' (JNum 1) ledger1
     \<noteq> Some (Inl (Error ''Message is too old!''), ledger1)"
proof -
  have fresh: "getTimeInSeconds 1000000 - 1000 \<le> 300" by (simp add: getTimeInSeconds_def)
  have stale: "getTimeInSeconds 1301000 - 1000 > 300" by (simp add: getTimeInSeconds_def)
  from submitStar_window_inverted[OF parse_challenge, of 1000000] fresh
  have 1: "submitStar toy_digest (\<lambda>message a signature. True) decimal_toNumber 1000000 1000000
       ''a'' ''a:1000:starRegistry'' ''sig'' (JNum 1) ledger1
     = Some (Inl (Error ''Message is too old!''), ledger1)" by blast
  from submitStar_window_inverted[OF parse_challenge, of 1301000] stale
  have 2: "submitStar toy_digest (\<lambda>message a signature. True) decimal_toNumber 1301000 1301000
       ''a'' ''a:1000:starRegistry'' ''sig'' (JNum 1) ledger1
     \<noteq> Some (Inl (Error ''Message is too old!''), ledger1)" by blast
  from 1 2 show ?thesis by blast
qed

theorem submitStar_atomic_witness:
  "submitStar toy_digest (\<lambda>message a signature. True) decimal_toNumber 1000000 1000000
       ''a'' ''a:1000:starRegistry'' ''sig'' (JNum 2) ledger2
     = Some (Inl (Error ''Message is too old!''), ledger2) \<and>
   submitStar toy_digest (\<lambda>message a signature. False) decimal_toNumber 1301000 1301000
       ''a'' ''a:1000:starRegistry'' ''sig'' (JNum 2) ledger2
     = Some (Inl (Error ''Message is invalid!''), ledger2) \<and>
   (\<exists>block. submitStar toy_digest (\<lambda>message a signature. True) decimal_toNumber 1301000 3000
       ''a'' ''a:1000:starRegistry'' ''sig'' (JNum 2) ledger2
     = Some (Inr block, ledger2\<lparr>p_chain := p_chain ledger2 @ [block], p_height := p_height ledger2 + 1\<rparr>))"
proof -
  have fresh: "\<not> ValidTime 1000000
      (BlockMessage.time (parse decimal_toNumber ''a:1000:starRegistry'' (new_BlockMessage None None)))"
    unfolding parse_challenge by (simp add: ValidTime_def getTimeInSeconds_def)
  have stale: "ValidTime 1301000
      (BlockMessage.time (parse decimal_toNumber ''a:1000:starRegistry'' (new_BlockMessage None None)))"
    unfolding parse_challenge by (simp add: ValidTime_def getTimeInSeconds_def)
  from submitStar_atomic[where ms = 1000000 and toNumber = decimal_toNumber
      and message = "''a:1000:starRegistry''"] fresh
  have 1: "submitStar toy_digest (\<lambda>message a signature. True) decimal_toNumber 1000000 1000000
       ''a'' ''a:1000:starRegistry'' ''sig'' (JNum 2) ledger2
     = Some (Inl (Error ''Message is too old!''), ledger2)" by blast
  from submitStar_atomic[where ms = 1301000 and toNumber = decimal_toNumber
      and message = "''a:1000:starRegistry''" and verify = "\<lambda>message a signature. False"] stale
  have 2: "submitStar toy_digest (\<lambda>message a signature. False) decimal_toNumber 1301000 1301000
       ''a'' ''a:1000:starRegistry'' ''sig'' (JNum 2) ledger2
     = Some (Inl (Error ''Message is invalid!''), ledger2)" by blast
  from submitStar_atomic[where ms = 1301000 and toNumber = decimal_toNumber
      and message = "''a:1000:starRegistry''" and verify = "\<lambda>message a signature. True"
      and ?SHA256.0 = toy_digest and bc = ledger2] stale reachable_ledger2
  have 3: "\<exists>block. submitStar toy_digest (\<lambda>message a signature. True) decimal_toNumber 1301000 3000
       ''a'' ''a:1000:starRegistry'' ''sig'' (JNum 2) ledger2
     = Some (Inr block, ledger2\<lparr>p_chain := p_chain ledger2 @ [block], p_height := p_height ledger2 + 1\<rparr>)"
    by blast
  from 1 2 3 show ?thesis by blast
qed

subsection \<open>The whole error log\<close>

lemma validate_eq: "validate SHA256 b = (intact SHA256 b, generateHash SHA256 b)"
  by (simp add: intact_def validate_def Let_def)

lemma fault_eq:
  "''Block '' @ template (hash (generateHash SHA256 b)) @ '' is invalid!'' = fault SHA256 b"
  by (simp add: fault_def generateHash_def template_def)

lemma faults_update: "i < k \<Longrightarrow> faults SHA256 i (chain[k := b]) = faults SHA256 i chain"
  by (induction i) simp_all

lemma walk_visits_all:
  assumes "i < length chain"
    and "previousBlockHash (chain ! 0) = None"
    and "\<forall>j\<le>i. 0 < j \<longrightarrow> previousBlockHash (chain ! j) = hash (chain ! (j - 1))"
    and "\<forall>j<i. truthy (hash (chain ! j))"
    and "\<forall>j<i. \<forall>j'<j. hash (chain ! j') \<noteq> hash (chain ! j)"
  shows "walk SHA256 chain (Some i) errorLog
           = Some (rehashed SHA256 i chain, errorLog @ faults SHA256 i chain)"
  using assms
proof (induction i arbitrary: chain errorLog)
  case 0
  then show ?case by (simp add: walk_stop)
next
  case (Suc i)
  let ?b = "chain ! Suc i"
  let ?chain' = "chain[Suc i := generateHash SHA256 ?b]"
  let ?log' = "errorLog @ (if intact SHA256 ?b then [] else [fault SHA256 ?b])"
  from Suc.prems have prev: "previousBlockHash ?b = hash (chain ! i)" by auto
  from Suc.prems have t: "truthy (previousBlockHash ?b)" by (simp add: prev)
  have same: "?chain' ! j = chain ! j" if "j \<le> i" for j using that by simp
  have look: "getBlockByHash ?chain' (hash (chain ! i)) = Some i"
    unfolding getBlockByHash_def
  proof (rule findIndex_unique)
    show "i < length ?chain'" using Suc.prems(1) by simp
    show "hash (?chain' ! i) = hash (chain ! i)" by (simp add: same)
    show "\<forall>m<i. hash (?chain' ! m) \<noteq> hash (chain ! i)"
      using Suc.prems(5) by (simp add: same)
  qed
  have step: "walk SHA256 chain (Some (Suc i)) errorLog = walk SHA256 ?chain' (Some i) ?log'"
    unfolding walk_step[OF t] validate_eq prev fst_conv snd_conv look fault_eq
    by (cases "intact SHA256 ?b") simp_all
  have "walk SHA256 ?chain' (Some i) ?log'
      = Some (rehashed SHA256 i ?chain', ?log' @ faults SHA256 i ?chain')"
  proof (rule Suc.IH)
    show "i < length ?chain'" using Suc.prems(1) by simp
    show "previousBlockHash (?chain' ! 0) = None" using Suc.prems(2) by (simp add: same)
    show "\<forall>j\<le>i. 0 < j \<longrightarrow> previousBlockHash (?chain' ! j) = hash (?chain' ! (j - 1))"
      using Suc.prems(3) by (simp add: same)
    show "\<forall>j<i. truthy (hash (?chain' ! j))" using Suc.prems(4) by (simp add: same)
    show "\<forall>j<i. \<forall>j'<j. hash (?chain' ! j') \<noteq> hash (?chain' ! j)"
      using Suc.prems(5) by (simp add: same)
  qed
  with step show ?case by (simp add: faults_update)
qed

text \<open>
  The whole log. On a ledger built by calls run one after another, with any bodies
  overwritten, the walk visits
  every block above the genesis from the latest down; the error carries one fault for
  each block whose digest changed, in that order, and every visited block is rehashed.
\<close>

lemma validateChain_reports_every_fault:
  assumes r: "reachable SHA256 bc"
    and len: "length chain = length (p_chain bc)"
    and bodies: "\<forall>i<length chain. chain ! i = (p_chain bc ! i)\<lparr>body := body (chain ! i)\<rparr>"
    and nonempty: "\<forall>b\<in>set (p_chain bc). hash b \<noteq> Some []"
    and dist: "distinct (map hash (p_chain bc))"
  shows "validateChain SHA256 (bc\<lparr>p_chain := chain\<rparr>) =
           Some (if faults SHA256 (length chain - 1) chain = [] then Inr ()
                 else Inl (InvalidChainError (faults SHA256 (length chain - 1) chain)),
                 bc\<lparr>p_chain := rehashed SHA256 (length chain - 1) chain\<rparr>)"
proof -
  let ?ch = "p_chain bc"
  let ?n = "length chain"
  from r have ok: "chain_ok SHA256 bc" by (rule reachable_chain_ok)
  then have n: "?ch \<noteq> []" by (simp add: chain_ok_def)
  have f: "hash (chain ! i) = hash (?ch ! i) \<and> height (chain ! i) = height (?ch ! i) \<and>
      previousBlockHash (chain ! i) = previousBlockHash (?ch ! i)" if "i < ?n" for i
  proof -
    from bodies that have "chain ! i = (?ch ! i)\<lparr>body := body (chain ! i)\<rparr>" by simp
    then show ?thesis by (metis Block.select_convs(1,2,5) Block.surjective Block.update_convs(3))
  qed
  from n len have n': "chain \<noteq> []" by auto
  have latest: "getLatestBlock (bc\<lparr>p_chain := chain\<rparr>) = Some (?n - 1)"
    using getLatestBlock_heights[of "bc\<lparr>p_chain := chain\<rparr>"] ok n' len f
    by (simp add: chain_ok_def)
  have tr: "truthy (hash (chain ! j))" if "j < ?n" for j
  proof -
    from that len have "?ch ! j \<in> set ?ch" by simp
    with nonempty have "hash (?ch ! j) \<noteq> Some []" by blast
    moreover from ok that len have "intact SHA256 (?ch ! j)" by (simp add: chain_ok_def)
    ultimately show ?thesis using f[OF that] by (auto simp: truthy_def intact_iff)
  qed
  have "walk SHA256 chain (Some (?n - 1)) []
      = Some (rehashed SHA256 (?n - 1) chain, [] @ faults SHA256 (?n - 1) chain)"
  proof (rule walk_visits_all)
    show "?n - 1 < ?n" using n len by simp
    show "previousBlockHash (chain ! 0) = None" using ok f[of 0] n len by (simp add: chain_ok_def)
    show "\<forall>j\<le>?n - 1. 0 < j \<longrightarrow> previousBlockHash (chain ! j) = hash (chain ! (j - 1))"
    proof (intro allI impI)
      fix j assume j: "j \<le> ?n - 1" "0 < j"
      with n len have lt: "j < ?n" "j - 1 < ?n" by (cases chain; auto)+
      from ok lt j len have "previousBlockHash (?ch ! j) = hash (?ch ! (j - 1))"
        by (simp add: chain_ok_def)
      with f[OF lt(1)] f[OF lt(2)] show "previousBlockHash (chain ! j) = hash (chain ! (j - 1))"
        by simp
    qed
    show "\<forall>j<?n - 1. truthy (hash (chain ! j))" using tr by simp
    show "\<forall>j<?n - 1. \<forall>j'<j. hash (chain ! j') \<noteq> hash (chain ! j)"
    proof (intro allI impI)
      fix j j' assume j: "j < ?n - 1" "j' < j"
      then have lt: "j < ?n" "j' < ?n" by simp_all
      from dist lt j len have "hash (?ch ! j') \<noteq> hash (?ch ! j)"
        by (auto simp: distinct_conv_nth)
      with f[OF lt(1)] f[OF lt(2)] show "hash (chain ! j') \<noteq> hash (chain ! j)" by simp
    qed
  qed
  then show ?thesis by (simp add: validateChain_def latest)
qed

text \<open>Two mutated blocks of the three-block ledger: two faults, the later block first.\<close>

lemma digest2_mutated: "toy_digest (stringify (block_rest (block2\<lparr>body := ''00''\<rparr>))) = ''507116''"
  by (simp add: block2_def block_rest_def toy_digest_def text_defs show_nat.simps)

lemma two_faults_reported:
  "validateChain toy_digest
     \<lparr>p_chain = [block0, block1\<lparr>body := ''00''\<rparr>, block2\<lparr>body := ''00''\<rparr>], p_height = 2\<rparr>
   = Some (Inl (InvalidChainError [''Block 507116 is invalid!'', ''Block 620535 is invalid!'']),
           \<lparr>p_chain = [block0, block1\<lparr>body := ''00'', hash := Some ''620535''\<rparr>,
                       block2\<lparr>body := ''00'', hash := Some ''507116''\<rparr>],
            p_height = 2\<rparr>)"
proof -
  let ?chain = "[block0, block1\<lparr>body := ''00''\<rparr>, block2\<lparr>body := ''00''\<rparr>]"
  have nonempty: "\<forall>b\<in>set (p_chain ledger3). hash b \<noteq> Some []"
    by (simp add: ledger3_def block0_def block1_def block2_def)
  have dist: "distinct (map hash (p_chain ledger3))"
    by (simp add: ledger3_def block0_def block1_def block2_def)
  have len: "length ?chain = length (p_chain ledger3)" by (simp add: ledger3_def)
  have bodies: "\<forall>i<length ?chain. ?chain ! i = (p_chain ledger3 ! i)\<lparr>body := body (?chain ! i)\<rparr>"
    by (simp add: ledger3_def All_less_Suc numeral_3_eq_3)
  have i1: "\<not> intact toy_digest (block1\<lparr>body := ''00''\<rparr>)"
    unfolding intact_iff digest1_mutated by (simp add: block1_def)
  have i2: "\<not> intact toy_digest (block2\<lparr>body := ''00''\<rparr>)"
    unfolding intact_iff digest2_mutated by (simp add: block2_def)
  have f: "faults toy_digest (length ?chain - 1) ?chain
      = [''Block 507116 is invalid!'', ''Block 620535 is invalid!'']"
    by (simp add: numeral_2_eq_2 i1 i2 fault_def digest1_mutated digest2_mutated)
  have h: "rehashed toy_digest (length ?chain - 1) ?chain
      = [block0, block1\<lparr>body := ''00'', hash := Some ''620535''\<rparr>,
         block2\<lparr>body := ''00'', hash := Some ''507116''\<rparr>]"
    by (simp add: numeral_2_eq_2 generateHash_def digest1_mutated digest2_mutated)
  show ?thesis
    using validateChain_reports_every_fault[OF reachable_ledger3 len bodies nonempty dist]
    unfolding f h by (simp add: ledger3_def)
qed

subsection \<open>The text of a block determines its fields\<close>

lemma hex_value_hex_char: "d < 16 \<Longrightarrow> hex_value (hex_char d) = Some d"
  by (simp add: hex_value_def hex_char_def Let_def)

lemma unquote_chars_quote_char:
  "unquote_chars (quote_char c @ rest) = map_option (apfst ((#) c)) (unquote_chars rest)"
proof -
  consider (ctl) "(of_char c :: nat) < 32" | (other) "\<not> (of_char c :: nat) < 32" by blast
  then show ?thesis
  proof cases
    case ctl
    then have d: "(of_char c :: nat) div 16 < 16" "(of_char c :: nat) mod 16 < 16" by simp_all
    have "c \<noteq> dq" "c \<noteq> bs" using ctl by (auto simp: dq_def bs_def)
    have rebuilt: "char_of (16 * ((of_char c :: nat) div 16) + (of_char c :: nat) mod 16) = c"
      by simp
    show ?thesis using ctl d rebuilt
      by (simp add: quote_char_def dq_def bs_def unescape_def hex_byte_def hex_value_hex_char)
  next
    case other
    then show ?thesis
      by (auto simp: quote_char_def dq_def bs_def unescape_def)
  qed
qed

lemma unquote_chars_quoted:
  "unquote_chars (concat (map quote_char s) @ dq # rest) = Some (s, rest)"
  by (induction s) (simp_all add: unquote_chars_quote_char)

lemma quote_prefix_free:
  assumes "quote s @ rest = quote s' @ rest'"
  shows "s = s' \<and> rest = rest'"
proof -
  from assms have "concat (map quote_char s) @ dq # rest = concat (map quote_char s') @ dq # rest'"
    by (simp add: quote_def)
  then have "unquote_chars (concat (map quote_char s) @ dq # rest)
      = unquote_chars (concat (map quote_char s') @ dq # rest')" by simp
  then show ?thesis by (simp add: unquote_chars_quoted)
qed

lemma of_char_digit_char: "d < 10 \<Longrightarrow> (of_char (digit_char d) :: nat) = 48 + d"
  by (simp add: digit_char_def)

lemma read_nat_snoc: "read_nat (s @ [c]) = 10 * read_nat s + (of_char c - 48)"
  by (simp add: read_nat_def)

lemma read_nat_show_nat: "read_nat (show_nat n) = n"
proof (induction n rule: show_nat.induct)
  case (1 n)
  show ?case
  proof (cases "n < 10")
    case True
    then show ?thesis
      by (subst show_nat.simps) (simp add: read_nat_def of_char_digit_char)
  next
    case False
    with 1 have "read_nat (show_nat (n div 10)) = n div 10" by simp
    with False show ?thesis
      by (subst show_nat.simps) (simp add: read_nat_snoc of_char_digit_char)
  qed
qed

lemma show_nat_inj: "show_nat m = show_nat n \<Longrightarrow> m = n"
  by (metis read_nat_show_nat)

lemma show_nat_digits: "c \<in> set (show_nat n) \<Longrightarrow> 48 \<le> (of_char c :: nat) \<and> (of_char c :: nat) \<le> 57"
proof (induction n rule: show_nat.induct)
  case (1 n)
  show ?case
  proof (cases "n < 10")
    case True
    with "1.prems" show ?thesis
      by (subst (asm) show_nat.simps) (simp add: of_char_digit_char)
  next
    case False
    with "1.prems" have "c \<in> set (show_nat (n div 10)) \<or> c = digit_char (n mod 10)"
      by (subst (asm) show_nat.simps) auto
    then show ?thesis
    proof
      assume "c \<in> set (show_nat (n div 10))"
      with 1 False show ?thesis by simp
    next
      assume "c = digit_char (n mod 10)"
      then show ?thesis by (simp add: of_char_digit_char)
    qed
  qed
qed

lemma show_nat_not_Nil: "show_nat n \<noteq> []"
  by (subst show_nat.simps) simp

lemma show_int_chars:
  "c \<in> set (show_int i) \<Longrightarrow> c = CHR ''-'' \<or> (48 \<le> (of_char c :: nat) \<and> (of_char c :: nat) \<le> 57)"
  by (auto simp: show_int_def dest: show_nat_digits split: if_splits)

lemma show_int_no_comma: "CHR '','' \<notin> set (show_int i)"
  using show_int_chars[of "CHR '',''" i] by auto

lemma show_int_inj: "show_int i = show_int j \<Longrightarrow> i = j"
proof -
  assume eq: "show_int i = show_int j"
  have minus: "show_nat n \<noteq> CHR ''-'' # s" for n s
  proof
    assume a: "show_nat n = CHR ''-'' # s"
    then have "CHR ''-'' \<in> set (show_nat n)" by simp
    from show_nat_digits[OF this] show False by simp
  qed
  show "i = j"
  proof (cases "i < 0"; cases "j < 0")
    assume "i < 0" "j < 0"
    with eq have "nat (- i) = nat (- j)" by (auto simp: show_int_def dest: show_nat_inj)
    with \<open>i < 0\<close> \<open>j < 0\<close> show ?thesis by simp
  next
    assume "i < 0" "\<not> j < 0"
    with eq minus[of "nat j" "show_nat (nat (- i))"] show ?thesis by (simp add: show_int_def)
  next
    assume "\<not> i < 0" "j < 0"
    with eq minus[of "nat i" "show_nat (nat (- j))"] show ?thesis by (simp add: show_int_def)
  next
    assume "\<not> i < 0" "\<not> j < 0"
    with eq have "nat i = nat j" by (auto simp: show_int_def dest: show_nat_inj)
    with \<open>\<not> i < 0\<close> \<open>\<not> j < 0\<close> show ?thesis by simp
  qed
qed

lemma split_at_separator:
  assumes "c \<notin> set xs" "c \<notin> set ys" "xs @ c # r = ys @ c # r'"
  shows "xs = ys \<and> r = r'"
  using assms
proof (induction xs arbitrary: ys)
  case Nil
  then show ?case by (cases ys) auto
next
  case (Cons x xs)
  then show ?case by (cases ys) auto
qed

lemma show_int_comma:
  "show_int i @ CHR '','' # r = show_int j @ CHR '','' # r' \<Longrightarrow> i = j \<and> r = r'"
  using split_at_separator[OF show_int_no_comma show_int_no_comma] show_int_inj by blast

lemma block_text:
  "stringify (block_rest b) =
     (''{'' @ quote ''height'' @ '':'') @ show_int (height b) @ CHR '','' #
     (quote ''body'' @ '':'') @ quote (body b) @ CHR '','' #
     (quote ''time'' @ '':'') @ show_int (time b) @ CHR '','' #
     (quote ''previousBlockHash'' @ '':'') @
       (case previousBlockHash b of None \<Rightarrow> ''null'' | Some p \<Rightarrow> quote p) @ ''}''"
  by (simp add: block_rest_def split: option.split)

lemma null_or_quote:
  assumes "(case p of None \<Rightarrow> ''null'' | Some x \<Rightarrow> quote x) @ ''}''
         = (case p' of None \<Rightarrow> ''null'' | Some x \<Rightarrow> quote x) @ ''}''"
  shows "p = p'"
proof (cases p; cases p')
  fix x x' assume "p = Some x" "p' = Some x'"
  with assms quote_prefix_free[of x "''}''" x' "''}''"] show ?thesis by simp
qed (use assms in \<open>auto simp: quote_def dq_def\<close>)

lemma block_text_inj:
  assumes "stringify (block_rest b) = stringify (block_rest b')"
  shows "height b = height b' \<and> body b = body b' \<and> time b = time b' \<and>
         previousBlockHash b = previousBlockHash b'"
proof -
  note eq = assms[unfolded block_text same_append_eq]
  from show_int_comma[OF eq] have h: "height b = height b'"
    and eq2: "(quote ''body'' @ '':'') @ quote (body b) @ CHR '','' #
       (quote ''time'' @ '':'') @ show_int (time b) @ CHR '','' #
       (quote ''previousBlockHash'' @ '':'') @
       (case previousBlockHash b of None \<Rightarrow> ''null'' | Some p \<Rightarrow> quote p) @ ''}''
     = (quote ''body'' @ '':'') @ quote (body b') @ CHR '','' #
       (quote ''time'' @ '':'') @ show_int (time b') @ CHR '','' #
       (quote ''previousBlockHash'' @ '':'') @
       (case previousBlockHash b' of None \<Rightarrow> ''null'' | Some p \<Rightarrow> quote p) @ ''}''"
    by simp_all
  from quote_prefix_free[OF eq2[unfolded same_append_eq]] have d: "body b = body b'"
    and eq3: "(quote ''time'' @ '':'') @ show_int (time b) @ CHR '','' #
       (quote ''previousBlockHash'' @ '':'') @
       (case previousBlockHash b of None \<Rightarrow> ''null'' | Some p \<Rightarrow> quote p) @ ''}''
     = (quote ''time'' @ '':'') @ show_int (time b') @ CHR '','' #
       (quote ''previousBlockHash'' @ '':'') @
       (case previousBlockHash b' of None \<Rightarrow> ''null'' | Some p \<Rightarrow> quote p) @ ''}''"
    by simp_all
  from show_int_comma[OF eq3[unfolded same_append_eq]] have t: "time b = time b'"
    and eq4: "(quote ''previousBlockHash'' @ '':'') @
       (case previousBlockHash b of None \<Rightarrow> ''null'' | Some p \<Rightarrow> quote p) @ ''}''
     = (quote ''previousBlockHash'' @ '':'') @
       (case previousBlockHash b' of None \<Rightarrow> ''null'' | Some p \<Rightarrow> quote p) @ ''}''"
    by simp_all
  from null_or_quote[OF eq4[unfolded same_append_eq]] have p: "previousBlockHash b = previousBlockHash b'" .
  from h d t p show ?thesis by blast
qed

text \<open>
  A digest that is injective and never empty meets what tamper detection asks of the
  stored hashes: they are non-empty and pairwise distinct, and a changed body changes
  the digest.
\<close>

lemma injective_digest_sensitive:
  assumes "inj SHA256" and "x \<noteq> body b"
  shows "SHA256 (stringify (block_rest (b\<lparr>body := x\<rparr>))) \<noteq> SHA256 (stringify (block_rest b))"
proof
  assume "SHA256 (stringify (block_rest (b\<lparr>body := x\<rparr>))) = SHA256 (stringify (block_rest b))"
  with assms(1) have "stringify (block_rest (b\<lparr>body := x\<rparr>)) = stringify (block_rest b)"
    by (simp add: inj_eq)
  from block_text_inj[OF this] assms(2) show False by simp
qed

lemma injective_digest_hashes:
  assumes r: "reachable SHA256 bc" and i: "inj SHA256" and ne: "\<forall>s. SHA256 s \<noteq> []"
  shows "distinct (map hash (p_chain bc)) \<and> (\<forall>b\<in>set (p_chain bc). hash b \<noteq> Some [])"
proof -
  let ?ch = "p_chain bc"
  from r have ok: "chain_ok SHA256 bc" by (rule reachable_chain_ok)
  then have int: "\<And>j. j < length ?ch \<Longrightarrow> hash (?ch ! j) = Some (SHA256 (stringify (block_rest (?ch ! j))))"
    and hs: "\<And>j. j < length ?ch \<Longrightarrow> height (?ch ! j) = int j"
    by (auto simp: chain_ok_def intact_iff)
  have "hash (?ch ! j) \<noteq> hash (?ch ! j')" if "j < length ?ch" "j' < length ?ch" "j \<noteq> j'" for j j'
  proof
    assume "hash (?ch ! j) = hash (?ch ! j')"
    with int that i have "stringify (block_rest (?ch ! j)) = stringify (block_rest (?ch ! j'))"
      by (simp add: inj_eq)
    from block_text_inj[OF this] hs that show False by simp
  qed
  then have d: "distinct (map hash ?ch)" by (auto simp: distinct_conv_nth)
  have "\<forall>b\<in>set ?ch. hash b \<noteq> Some []"
    using int ne by (auto simp: in_set_conv_nth)
  with d show ?thesis by blast
qed

text \<open>
  Claim C7. \<^verbatim>\<open>generateHash\<close> stores the digest of the JSON text of the four fields
  \<^verbatim>\<open>height\<close>, \<^verbatim>\<open>body\<close>, \<^verbatim>\<open>time\<close> and \<^verbatim>\<open>previousBlockHash\<close>, in that order. The
  \<^verbatim>\<open>hash\<close> field is not part of the text, so the result does not depend on it, and
  computing the hash again changes nothing. Two blocks have the same text exactly when
  they agree on the four fields.
\<close>

theorem generateHash_domain:
  "hash (generateHash SHA256 b) =
     Some (SHA256
       (''{'' @ quote ''height'' @ '':'' @ show_int (height b) @ '','' @
        quote ''body'' @ '':'' @ quote (body b) @ '','' @
        quote ''time'' @ '':'' @ show_int (time b) @ '','' @
        quote ''previousBlockHash'' @ '':'' @
          (case previousBlockHash b of None \<Rightarrow> ''null'' | Some p \<Rightarrow> quote p) @ ''}'')) \<and>
   generateHash SHA256 (b\<lparr>hash := h\<rparr>) = generateHash SHA256 b \<and>
   generateHash SHA256 (generateHash SHA256 b) = generateHash SHA256 b \<and>
   (stringify (block_rest b) = stringify (block_rest b') \<longleftrightarrow>
      height b = height b' \<and> body b = body b' \<and> time b = time b' \<and>
      previousBlockHash b = previousBlockHash b')"
proof -
  have 1: "hash (generateHash SHA256 b) =
     Some (SHA256
       (''{'' @ quote ''height'' @ '':'' @ show_int (height b) @ '','' @
        quote ''body'' @ '':'' @ quote (body b) @ '','' @
        quote ''time'' @ '':'' @ show_int (time b) @ '','' @
        quote ''previousBlockHash'' @ '':'' @
          (case previousBlockHash b of None \<Rightarrow> ''null'' | Some p \<Rightarrow> quote p) @ ''}''))"
    by (simp add: generateHash_def block_rest_def split: option.split)
  have 2: "generateHash SHA256 (b\<lparr>hash := h\<rparr>) = generateHash SHA256 b"
    by (simp add: generateHash_def)
  have 3: "generateHash SHA256 (generateHash SHA256 b) = generateHash SHA256 b"
    by (simp add: generateHash_def)
  have 4: "stringify (block_rest b) = stringify (block_rest b') \<longleftrightarrow>
      height b = height b' \<and> body b = body b' \<and> time b = time b' \<and>
      previousBlockHash b = previousBlockHash b'"
    using block_text_inj[of b b'] by (auto simp: block_rest_def)
  from 1 2 3 4 show ?thesis by blast
qed

theorem generateHash_domain_witness:
  "stringify (block_rest block1) \<noteq> stringify (block_rest (block1\<lparr>body := ''00''\<rparr>)) \<and>
   stringify (block_rest block1) = stringify (block_rest (block1\<lparr>hash := None\<rparr>)) \<and>
   generateHash toy_digest (generateHash toy_digest block1) = generateHash toy_digest block1"
  using generateHash_domain[where b = block1 and b' = "block1\<lparr>body := ''00''\<rparr>"
      and ?SHA256.0 = toy_digest]
    generateHash_domain[where b = block1 and b' = "block1\<lparr>hash := None\<rparr>"
      and ?SHA256.0 = toy_digest]
  by (simp add: block1_def)

subsection \<open>A challenge the ledger issued\<close>

lemma split_field:
  "sep \<notin> set field \<Longrightarrow> split sep (field @ sep # rest) = field # split sep rest"
  by (induction field) (auto split: list.splits)

lemma show_int_no_colon: "CHR '':'' \<notin> set (show_int i)"
  using show_int_chars[of "CHR '':''" i] by auto

lemma parse_issued:
  assumes "CHR '':'' \<notin> set a"
  shows "BlockMessage.time
           (parse toNumber (requestMessageOwnershipVerification ms a) (new_BlockMessage None None))
         = toNumber (show_int (getTimeInSeconds ms))"
proof -
  have "split CHR '':'' (requestMessageOwnershipVerification ms a)
      = a # show_int (getTimeInSeconds ms) # split CHR '':'' ''starRegistry''"
    using assms show_int_no_colon[of "getTimeInSeconds ms"]
    by (simp add: requestMessageOwnershipVerification_def toString_def new_BlockMessage_def
        split_field del: split.simps)
  then show ?thesis by (simp add: parse_def)
qed

text \<open>
  The challenge that the ledger has just issued is rejected as too old, for 300 seconds:
  the address has no colon, and \<open>toNumber\<close> reads the decimal time back.
\<close>

lemma issued_challenge_rejected:
  assumes "CHR '':'' \<notin> set a"
    and "toNumber (show_int (getTimeInSeconds ms\<^sub>0)) = Some (getTimeInSeconds ms\<^sub>0)"
    and "getTimeInSeconds ms - getTimeInSeconds ms\<^sub>0 \<le> 300"
  shows "submitStar SHA256 verify toNumber ms ms' a
           (requestMessageOwnershipVerification ms\<^sub>0 a) signature star bc
         = Some (Inl (Error ''Message is too old!''), bc)"
  using assms by (simp add: submitStar_def parse_issued ValidTime_def)

subsection \<open>Decoding the body\<close>

lemma hex2ascii_pairs_byte:
  assumes "0 < n" "n < 256"
  shows "hex2ascii_pairs (hex_byte n @ rest) = char_of n # hex2ascii_pairs rest"
proof -
  from assms have "n div 16 < 16" "n mod 16 < 16" by simp_all
  then show ?thesis using assms
    by (simp add: hex_byte_def hex_value_hex_char)
qed

text \<open>The hexadecimal body decodes to the text it encodes when the text is ASCII.\<close>

lemma hex2ascii_pairs_ascii:
  assumes "\<forall>c\<in>set s. 0 < (of_char c :: nat) \<and> (of_char c :: nat) < 128"
  shows "hex2ascii_pairs (toString_hex (Buffer_from s)) = s"
  using assms
proof (induction s)
  case Nil
  then show ?case by (simp add: toString_hex_def Buffer_from_def)
next
  case (Cons c s)
  then have c: "0 < (of_char c :: nat)" "(of_char c :: nat) < 128" by simp_all
  have "toString_hex (Buffer_from (c # s)) = hex_byte (of_char c) @ toString_hex (Buffer_from s)"
    using c by (simp add: toString_hex_def Buffer_from_def utf8_char_def)
  then show ?case using c Cons
    by (simp add: hex2ascii_pairs_byte)
qed

lemma getBData_ascii:
  assumes "\<forall>c\<in>set (stringify x). 0 < (of_char c :: nat) \<and> (of_char c :: nat) < 128"
    and "JSON_parse (stringify x) = Some x"
    and "n \<noteq> 0"
  shows "getBData hex2ascii_pairs JSON_parse ((new_Block x)\<lparr>height := n\<rparr>) = Inr x"
  using assms by (simp add: getBData_def new_Block_def hex2ascii_pairs_ascii)

lemma body_accented:
  "toString_hex (Buffer_from (stringify accented))
     = ''7b226f776e6572223a2261222c2273746172223a7b2273746f7279223a22c3a9227d7d''"
  by (simp add: accented_def text_defs)

lemma text_garbled:
  "hex2ascii_pairs ''7b226f776e6572223a2261222c2273746172223a7b2273746f7279223a22c3a9227d7d''
     = stringify garbled"
  by (simp add: garbled_def hex_value_def text_defs)

text \<open>
  Claim C8. The claim is that \<^verbatim>\<open>getBData\<close> returns the payload the block was made
  from. For the payload \<open>accented\<close> the code decodes the body to the JSON text of
  \<open>garbled\<close>, a different text, and returns what \<^verbatim>\<open>JSON.parse\<close> makes of that.
\<close>

theorem getBData_garbles_accent:
  "getBData hex2ascii_pairs JSON_parse ((new_Block accented)\<lparr>height := 1\<rparr>) =
     (case JSON_parse (stringify garbled) of None \<Rightarrow> Inl SyntaxError | Some v \<Rightarrow> Inr v) \<and>
   stringify garbled \<noteq> stringify accented \<and>
   garbled \<noteq> accented"
proof -
  have b: "body ((new_Block accented)\<lparr>height := 1\<rparr>) = toString_hex (Buffer_from (stringify accented))"
    by (simp add: new_Block_def)
  have 1: "getBData hex2ascii_pairs JSON_parse ((new_Block accented)\<lparr>height := 1\<rparr>) =
     (case JSON_parse (stringify garbled) of None \<Rightarrow> Inl SyntaxError | Some v \<Rightarrow> Inr v)"
    unfolding getBData_def b body_accented text_garbled by simp
  have 2: "stringify garbled \<noteq> stringify accented"
    by (simp add: garbled_def accented_def text_defs)
  have 3: "garbled \<noteq> accented" by (simp add: garbled_def accented_def)
  from 1 2 3 show ?thesis by blast
qed

end
